theory Spec2Isabelle
  imports Main
begin

section \<open>JavaScript values\<close>

text \<open>
  The values that flow through the instrumentation layer: request payloads, span
  attributes, thrown errors. Numbers are integers (no claim below depends on
  fractions). An object is the list of its own enumerable properties in iteration
  order; a well-formed object has distinct keys. An \<open>Error\<close> is an object with
  the properties \<open>name\<close>, \<open>message\<close> and \<open>stack\<close>.
\<close>

datatype jsval =
    JUndefined
  | JNull
  | JBool bool
  | JNum int
  | JStr string
  | JArr "jsval list"
  | JObj "(string \<times> jsval) list"

type_synonym props = "(string \<times> jsval) list"

text \<open>\<open>if (v)\<close>: the truthiness of a value.\<close>

fun truthy :: "jsval \<Rightarrow> bool" where
  "truthy JUndefined = False"
| "truthy JNull = False"
| "truthy (JBool b) = b"
| "truthy (JNum n) = (n \<noteq> 0)"
| "truthy (JStr s) = (s \<noteq> [])"
| "truthy (JArr xs) = True"
| "truthy (JObj kvs) = True"

text \<open>\<open>typeof v === 'object'\<close>: so are arrays, and \<open>null\<close>.\<close>

fun typeof_object :: "jsval \<Rightarrow> bool" where
  "typeof_object JNull = True"
| "typeof_object (JArr xs) = True"
| "typeof_object (JObj kvs) = True"
| "typeof_object v = False"

text \<open>The values that are objects or arrays.\<close>

fun is_object :: "jsval \<Rightarrow> bool" where
  "is_object (JArr xs) = True"
| "is_object (JObj kvs) = True"
| "is_object v = False"

text \<open>\<open>v.k\<close> on a value that is neither \<open>null\<close> nor \<open>undefined\<close>.\<close>

fun get_prop :: "jsval \<Rightarrow> string \<Rightarrow> jsval" where
  "get_prop (JObj kvs) k = (case map_of kvs k of Some v \<Rightarrow> v | None \<Rightarrow> JUndefined)"
| "get_prop v k = JUndefined"

text \<open>\<open>a || b\<close>.\<close>

definition js_or :: "jsval \<Rightarrow> jsval \<Rightarrow> jsval" where
  "js_or a b = (if truthy a then a else b)"

text \<open>\<open>o[k] = v\<close> on the property list of an object: an existing key keeps its place.\<close>

fun set_prop :: "'k \<Rightarrow> 'v \<Rightarrow> ('k \<times> 'v) list \<Rightarrow> ('k \<times> 'v) list" where
  "set_prop k v [] = [(k, v)]"
| "set_prop k v ((k', v') # kvs) =
     (if k = k' then (k, v) # kvs else (k', v') # set_prop k v kvs)"

text \<open>\<open>{...a, ...b}\<close>.\<close>

definition spread :: "props \<Rightarrow> props \<Rightarrow> props" where
  "spread a b = foldl (\<lambda>acc kv. set_prop (fst kv) (snd kv) acc) a b"

text \<open>
  An error of the class \<open>name\<close> with the message \<open>msg\<close>, as \<open>new Error(msg)\<close> makes
  it and as the engine throws it. Its stack starts with the name and the message;
  one fixed line stands for the frames, which depend on the engine.
\<close>

definition error_of :: "string \<Rightarrow> string \<Rightarrow> jsval" where
  "error_of name msg =
     JObj [(''name'', JStr name),
           (''message'', JStr msg),
           (''stack'', JStr (name @ '': '' @ msg @ [CHR 0x0A] @ ''    at <anonymous>''))]"

text \<open>
  Reading a property of \<open>null\<close> or \<open>undefined\<close> throws this. A catch block that
  builds its log line from \<open>error.message\<close> and \<open>error.stack\<close> does such a read:
  \<open>log_caught\<close> is what evaluating the arguments of that logger call throws, if
  anything (the logger call itself touches no span).
\<close>

definition cannot_read :: jsval where
  "cannot_read = error_of ''TypeError'' ''Cannot read properties of undefined''"

definition log_caught :: "jsval \<Rightarrow> jsval option" where
  "log_caught error = (if error = JUndefined \<or> error = JNull then Some cannot_read else None)"

section \<open>Spans as the tracing service sees them\<close>

text \<open>
  The methods of the OpenTelemetry \<open>Span\<close> interface. A span value is either a stub
  (an object literal whose listed methods are \<open>() => {}\<close>), or a span started by the
  SDK tracer, which has every method and records what is called on it. Calling a
  method that the object does not have throws a \<open>TypeError\<close>.
\<close>

datatype smethod =
    M_spanContext
  | M_setAttribute
  | M_setAttributes
  | M_addEvent
  | M_addLink
  | M_addLinks
  | M_setStatus
  | M_updateName
  | M_end
  | M_isRecording
  | M_recordException

datatype call = Call smethod "jsval list"

datatype span =
    Stub "smethod set"
  | Recording "call list"

fun methods :: "span \<Rightarrow> smethod set" where
  "methods (Stub ms) = ms"
| "methods (Recording cs) = UNIV"

fun method_of :: "call \<Rightarrow> smethod" where
  "method_of (Call m args) = m"

fun method_name :: "smethod \<Rightarrow> string" where
  "method_name M_spanContext = ''spanContext''"
| "method_name M_setAttribute = ''setAttribute''"
| "method_name M_setAttributes = ''setAttributes''"
| "method_name M_addEvent = ''addEvent''"
| "method_name M_addLink = ''addLink''"
| "method_name M_addLinks = ''addLinks''"
| "method_name M_setStatus = ''setStatus''"
| "method_name M_updateName = ''updateName''"
| "method_name M_end = ''end''"
| "method_name M_isRecording = ''isRecording''"
| "method_name M_recordException = ''recordException''"

definition type_error :: "smethod \<Rightarrow> jsval" where
  "type_error m = error_of ''TypeError'' (''span.'' @ method_name m @ '' is not a function'')"

text \<open>
  A statement runs on a span and on the list of the method invocations made on that
  span so far (what a test spy on the object would have seen), and either completes
  or throws. The state it leaves behind is kept in both cases.
\<close>

type_synonym st = "span \<times> call list"
type_synonym stmt = "st \<Rightarrow> jsval option \<times> st"

definition skip :: stmt where
  "skip s = (None, s)"

definition throw :: "jsval \<Rightarrow> stmt" where
  "throw e s = (Some e, s)"

fun invoke :: "call \<Rightarrow> stmt" where
  "invoke c (Stub ms, tr) =
     (if method_of c \<in> ms then (None, (Stub ms, tr @ [c]))
      else (Some (type_error (method_of c)), (Stub ms, tr)))"
| "invoke c (Recording cs, tr) = (None, (Recording (cs @ [c]), tr @ [c]))"

fun seq :: "stmt list \<Rightarrow> stmt" where
  "seq [] s = (None, s)"
| "seq (p # ps) s =
     (case p s of (None, s') \<Rightarrow> seq ps s' | (Some e, s') \<Rightarrow> (Some e, s'))"

definition try_catch :: "stmt \<Rightarrow> (jsval \<Rightarrow> stmt) \<Rightarrow> stmt" where
  "try_catch body handler s =
     (case body s of (None, s') \<Rightarrow> (None, s') | (Some e, s') \<Rightarrow> handler e s')"

text \<open>The calls the service makes, with the arguments it passes.\<close>

definition setAttribute :: "string \<Rightarrow> jsval \<Rightarrow> call" where
  "setAttribute key v = Call M_setAttribute [JStr key, v]"

definition SpanStatusCode_OK :: jsval where
  "SpanStatusCode_OK = JNum 1"

definition SpanStatusCode_ERROR :: jsval where
  "SpanStatusCode_ERROR = JNum 2"

definition setStatus_OK :: call where
  "setStatus_OK = Call M_setStatus [JObj [(''code'', SpanStatusCode_OK)]]"

definition setStatus_ERROR :: "jsval \<Rightarrow> call" where
  "setStatus_ERROR msg =
     Call M_setStatus [JObj [(''code'', SpanStatusCode_ERROR), (''message'', msg)]]"

definition recordException :: "jsval \<Rightarrow> call" where
  "recordException e = Call M_recordException [e]"

definition end_span :: call where
  "end_span = Call M_end []"

section \<open>lib/tracing/tracing.service.ts\<close>

text \<open>
  \<open>JSON.stringify\<close> belongs to the engine and may throw (a cyclic structure, a
  BigInt); the service takes it as the parameter \<open>js\<close>, \<open>Inl e\<close> when it throws
  \<open>e\<close>. Logger calls touch no span and are left out, except for what evaluating
  their arguments can throw (\<open>log_caught\<close>).
\<close>

type_synonym stringify = "jsval \<Rightarrow> jsval + string"

text \<open>The body of the \<open>Object.entries(attributes).forEach\<close> of createSpan and endSpan.\<close>

definition attach_attribute :: "stringify \<Rightarrow> string \<times> jsval \<Rightarrow> stmt" where
  "attach_attribute js kv =
     (let key = fst kv; v = snd kv in
      if v \<noteq> JUndefined \<and> v \<noteq> JNull then
        (if typeof_object v \<and> v \<noteq> JNull then
           try_catch
             (case js v of
                Inl e \<Rightarrow> throw e
              | Inr text \<Rightarrow> invoke (setAttribute key (JStr text)))
             (\<lambda>e. invoke (setAttribute key (JStr ''[Object]'')))
         else invoke (setAttribute key v))
      else skip)"

definition attach_attributes :: "stringify \<Rightarrow> props option \<Rightarrow> stmt" where
  "attach_attributes js attributes =
     (case attributes of
        None \<Rightarrow> skip
      | Some kvs \<Rightarrow> seq (map (attach_attribute js) kvs))"

definition hasRequiredMethods :: "span \<Rightarrow> bool" where
  "hasRequiredMethods span =
     (M_setAttribute \<in> methods span \<and> M_setStatus \<in> methods span \<and> M_end \<in> methods span)"

text \<open>The \<open>try\<close> block of endSpan. \<open>error\<close> is \<open>JUndefined\<close> when the argument is absent.\<close>

definition endSpan_try :: "stringify \<Rightarrow> bool \<Rightarrow> jsval \<Rightarrow> props option \<Rightarrow> stmt" where
  "endSpan_try js success error attributes =
     seq [
       attach_attributes js attributes,
       invoke (setAttribute ''operation.success'' (JBool success)),
       (if success then invoke setStatus_OK
        else if truthy error then
          seq [
            invoke (setStatus_ERROR (get_prop error ''message'')),
            invoke (recordException error),
            invoke (setAttribute ''error.type'' (js_or (get_prop error ''name'') (JStr ''Error''))),
            invoke (setAttribute ''error.message'' (get_prop error ''message'')),
            (if truthy (get_prop error ''stack'')
             then invoke (setAttribute ''error.stack'' (get_prop error ''stack''))
             else skip)]
        else invoke (setStatus_ERROR (JStr ''Unknown error''))),
       invoke end_span]"

text \<open>
  endSpan: the span argument may be \<open>null\<close>/\<open>undefined\<close> (\<open>None\<close>). The function
  returns nothing; what it does is what it leaves on the span. Its catch block logs
  \<open>err.message\<close> and \<open>err.stack\<close>; the first component of the result is what the
  call throws, if anything.
\<close>

definition endSpan ::
  "stringify \<Rightarrow> span option \<Rightarrow> bool \<Rightarrow> jsval \<Rightarrow> props option \<Rightarrow> call list
   \<Rightarrow> jsval option \<times> span option \<times> call list"
where
  "endSpan js span success error attributes tr =
     (case span of
        None \<Rightarrow> (None, None, tr)
      | Some sp \<Rightarrow>
          if \<not> hasRequiredMethods sp then (None, Some sp, tr)
          else
            (case try_catch (endSpan_try js success error attributes)
                    (\<lambda>err. case log_caught err of None \<Rightarrow> skip | Some e \<Rightarrow> throw e)
                    (sp, tr) of
               (r, (sp', tr')) \<Rightarrow> (r, Some sp', tr')))"

text \<open>
  The configuration the service reads, and the SDK behind \<open>trace.getTracer\<close>: it either
  throws (\<open>fault\<close>) or starts a recording span, and it keeps the list of what it was
  asked to do.
\<close>

record config =
  enabled :: bool
  serviceName :: jsval
  serviceVersion :: jsval
  environment :: jsval

record start_options =
  so_kind :: jsval
  so_links :: jsval
  so_attributes :: props

datatype sdk_event =
    StartSpan string start_options
  | StartActiveSpan string

record sdk =
  fault :: "jsval option"
  events :: "sdk_event list"

definition startSpan :: "sdk \<Rightarrow> string \<Rightarrow> start_options \<Rightarrow> (jsval + span) \<times> sdk" where
  "startSpan k name opts =
     (case fault k of
        Some e \<Rightarrow> (Inl e, k)
      | None \<Rightarrow> (Inr (Recording []), k\<lparr>events := events k @ [StartSpan name opts]\<rparr>))"

text \<open>The object literal createSpan returns when tracing is off or the SDK failed.\<close>

definition noop_span :: span where
  "noop_span = Stub {M_setAttribute, M_setStatus, M_recordException, M_end}"

text \<open>
  createSpan: \<open>Inl e\<close> is a throw to the caller. The result carries the span and the
  invocations made on it so far. The catch block logs \<open>error.message\<close> and
  \<open>error.stack\<close> before it returns the stub.
\<close>

definition createSpan ::
  "config \<Rightarrow> stringify \<Rightarrow> sdk \<Rightarrow> string \<Rightarrow> props option \<Rightarrow> jsval \<Rightarrow> jsval \<Rightarrow> (jsval + st) \<times> sdk"
where
  "createSpan config js k name attributes kind links =
     (if \<not> enabled config then (Inr (noop_span, []), k)
      else
        (case startSpan k name
                \<lparr>so_kind = kind, so_links = links,
                 so_attributes =
                   spread [(''service.name'', serviceName config),
                           (''service.version'', serviceVersion config),
                           (''environment'', environment config)]
                     (case attributes of None \<Rightarrow> [] | Some kvs \<Rightarrow> kvs)\<rparr> of
           (Inl error, k') \<Rightarrow>
             (case log_caught error of
                Some e \<Rightarrow> (Inl e, k')
              | None \<Rightarrow> (Inr (noop_span, []), k'))
         | (Inr span, k') \<Rightarrow>
             (case attach_attributes js attributes (span, []) of
                (None, s) \<Rightarrow> (Inr s, k')
              | (Some error, s) \<Rightarrow>
                  (case log_caught error of
                     Some e \<Rightarrow> (Inl e, k')
                   | None \<Rightarrow> (Inr (noop_span, []), k')))))"

text \<open>
  The function handed to trace. What it does with the span it is given is the list
  of method calls it makes on it, in order; a call of a method the span does not
  have throws inside the function and ends it. Then it returns or throws, or the
  promise it returned resolves or rejects.
\<close>

datatype 'a completion =
    Returns 'a
  | Throws jsval
  | Resolves 'a
  | Rejects jsval

record 'a fn_run =
  made :: "call list"
  completion :: "'a completion"

text \<open>\<open>await\<close> of what the function gave.\<close>

fun await :: "'a completion \<Rightarrow> jsval + 'a" where
  "await (Returns v) = Inr v"
| "await (Resolves v) = Inr v"
| "await (Throws e) = Inl e"
| "await (Rejects e) = Inl e"

definition call_fn :: "(span \<Rightarrow> 'a fn_run) \<Rightarrow> st \<Rightarrow> (jsval + 'a) \<times> st" where
  "call_fn fn s =
     (case seq (map invoke (made (fn (fst s)))) s of
        (Some e, s') \<Rightarrow> (Inl e, s')
      | (None, s') \<Rightarrow> (await (completion (fn (fst s))), s'))"

record 'a trace_options =
  o_attributes :: "props option"
  o_kind :: jsval
  o_links :: jsval
  resultAttributes :: "('a \<Rightarrow> jsval + props) option"

text \<open>\<open>options?.field\<close>.\<close>

definition opt :: "('o \<Rightarrow> 'b) \<Rightarrow> 'b \<Rightarrow> 'o option \<Rightarrow> 'b" where
  "opt field absent options = (case options of None \<Rightarrow> absent | Some o' \<Rightarrow> field o')"

text \<open>
  The catch block of trace: \<open>this.endSpan(span, false, error); throw error\<close>.
\<close>

definition trace_catch ::
  "stringify \<Rightarrow> jsval \<Rightarrow> span option \<times> call list \<Rightarrow> (jsval + 'a) \<times> (span option \<times> call list)"
where
  "trace_catch js error s =
     (case endSpan js (fst s) False error None (snd s) of
        (None, s') \<Rightarrow> (Inl error, s')
      | (Some e, s') \<Rightarrow> (Inl e, s'))"

text \<open>
  trace: the result is what the returned promise settles with (\<open>Inl e\<close>: rejected
  with \<open>e\<close>), the span with the invocations made on it, and the SDK. createSpan is
  called before the \<open>try\<close>: what it throws rejects the promise, and no function is
  run.
\<close>

definition trace ::
  "config \<Rightarrow> stringify \<Rightarrow> sdk \<Rightarrow> string \<Rightarrow> (span \<Rightarrow> 'a fn_run) \<Rightarrow> 'a trace_options option
   \<Rightarrow> (jsval + 'a) \<times> (span option \<times> call list) \<times> sdk"
where
  "trace config js k name fn options =
     (case createSpan config js k name (opt o_attributes None options)
             (opt o_kind JUndefined options) (opt o_links JUndefined options) of
        (Inl e, k') \<Rightarrow> (Inl e, (None, []), k')
      | (Inr s0, k') \<Rightarrow>
          (case call_fn fn s0 of
             (Inr result, (span, tr)) \<Rightarrow>
               (case (case opt resultAttributes None options of
                        None \<Rightarrow> Inr None
                      | Some extract \<Rightarrow>
                          (case extract result of Inl e \<Rightarrow> Inl e | Inr kvs \<Rightarrow> Inr (Some kvs))) of
                  Inr resultAttrs \<Rightarrow>
                    (case endSpan js (Some span) True JUndefined resultAttrs tr of
                       (None, s) \<Rightarrow> (Inr result, s, k')
                     | (Some error, s) \<Rightarrow>
                         (case trace_catch js error s of (r, s') \<Rightarrow> (r, s', k')))
                | Inl error \<Rightarrow>
                    (case trace_catch js error (Some span, tr) of (r, s') \<Rightarrow> (r, s', k')))
           | (Inl error, (span, tr)) \<Rightarrow>
               (case trace_catch js error (Some span, tr) of (r, s') \<Rightarrow> (r, s', k'))))"

text \<open>
  traceWithActiveSpan. With tracing on, \<open>tracer.startActiveSpan\<close> starts the span and
  makes it the current span of the ambient context while the callback runs; reading
  \<open>error.message\<close> of a \<open>null\<close> or \<open>undefined\<close> error throws \<open>cannot_read\<close>.
\<close>

definition finish_active :: "(jsval + 'a) \<Rightarrow> st \<Rightarrow> (jsval + 'a) \<times> st" where
  "finish_active r s =
     (case invoke end_span s of (None, s') \<Rightarrow> (r, s') | (Some e, s') \<Rightarrow> (Inl e, s'))"

definition active_catch :: "jsval \<Rightarrow> st \<Rightarrow> (jsval + 'a) \<times> st" where
  "active_catch error s =
     (if error = JUndefined \<or> error = JNull then finish_active (Inl cannot_read) s
      else
        (case seq [invoke (setStatus_ERROR (get_prop error ''message'')),
                   invoke (recordException error)] s of
           (None, s') \<Rightarrow> finish_active (Inl error) s'
         | (Some e, s') \<Rightarrow> finish_active (Inl e) s'))"

definition traceWithActiveSpan ::
  "config \<Rightarrow> sdk \<Rightarrow> string \<Rightarrow> (span \<Rightarrow> 'a fn_run) \<Rightarrow> props option
   \<Rightarrow> (jsval + 'a) \<times> st option \<times> sdk"
where
  "traceWithActiveSpan config k name fn attributes =
     (if \<not> enabled config then
        (case call_fn fn (Stub {}, []) of (r, s) \<Rightarrow> (r, Some s, k))
      else
        (case fault k of
           Some e \<Rightarrow> (Inl e, None, k)
         | None \<Rightarrow>
             (let k' = k\<lparr>events := events k @ [StartActiveSpan name]\<rparr> in
              case seq (map (\<lambda>kv. if snd kv \<noteq> JUndefined \<and> snd kv \<noteq> JNull
                                    then invoke (setAttribute (fst kv) (snd kv)) else skip)
                          (case attributes of None \<Rightarrow> [] | Some kvs \<Rightarrow> kvs))
                     (Recording [], []) of
                (Some e, s) \<Rightarrow> (Inl e, Some s, k')
              | (None, s0) \<Rightarrow>
                  (case call_fn fn s0 of
                     (Inr result, s1) \<Rightarrow>
                       (case invoke setStatus_OK s1 of
                          (None, s2) \<Rightarrow>
                            (case finish_active (Inr result) s2 of (r, s3) \<Rightarrow> (r, Some s3, k'))
                        | (Some error, s2) \<Rightarrow>
                            (case active_catch error s2 of (r, s3) \<Rightarrow> (r, Some s3, k')))
                   | (Inl error, s1) \<Rightarrow>
                       (case active_catch error s1 of (r, s3) \<Rightarrow> (r, Some s3, k'))))))"

subsection \<open>Notions used to state what the tracing service does\<close>

text \<open>The span after the calls \<open>cs\<close> were made on it: a stub stays as it is.\<close>

fun after :: "call list \<Rightarrow> span \<Rightarrow> span" where
  "after cs (Stub ms) = Stub ms"
| "after cs (Recording r) = Recording (r @ cs)"

text \<open>The invocations of one method among a list of invocations.\<close>

definition calls_of :: "smethod \<Rightarrow> call list \<Rightarrow> call list" where
  "calls_of m cs = filter (\<lambda>c. method_of c = m) cs"

text \<open>
  The attribute calls an attribute map amounts to: \<open>null\<close> and \<open>undefined\<close> values
  are skipped, objects go through \<open>JSON.stringify\<close> with the placeholder
  \<open>[Object]\<close> when it throws.
\<close>

definition merged_attribute :: "stringify \<Rightarrow> string \<times> jsval \<Rightarrow> call list" where
  "merged_attribute js kv =
     (if snd kv = JUndefined \<or> snd kv = JNull then []
      else if is_object (snd kv) then
        [setAttribute (fst kv)
           (case js (snd kv) of Inr text \<Rightarrow> JStr text | Inl e \<Rightarrow> JStr ''[Object]'')]
      else [setAttribute (fst kv) (snd kv)])"

definition merged_attributes :: "stringify \<Rightarrow> props option \<Rightarrow> call list" where
  "merged_attributes js attrs =
     (case attrs of None \<Rightarrow> [] | Some kvs \<Rightarrow> concat (map (merged_attribute js) kvs))"

text \<open>The calls that set the outcome of the operation on a span, and all of endSpan's.\<close>

definition status_calls :: "bool \<Rightarrow> jsval \<Rightarrow> call list" where
  "status_calls success error =
     (if success then [setStatus_OK]
      else if truthy error then
        [setStatus_ERROR (get_prop error ''message''),
         recordException error,
         setAttribute ''error.type'' (js_or (get_prop error ''name'') (JStr ''Error'')),
         setAttribute ''error.message'' (get_prop error ''message'')] @
        (if truthy (get_prop error ''stack'')
         then [setAttribute ''error.stack'' (get_prop error ''stack'')] else [])
      else [setStatus_ERROR (JStr ''Unknown error'')])"

definition endSpan_calls :: "stringify \<Rightarrow> bool \<Rightarrow> jsval \<Rightarrow> props option \<Rightarrow> call list" where
  "endSpan_calls js success error attrs =
     merged_attributes js attrs @ [setAttribute ''operation.success'' (JBool success)] @
     status_calls success error @ [end_span]"

text \<open>
  Concrete inputs: an object with three of the four methods endSpan uses, an error,
  and two stand-ins for \<open>JSON.stringify\<close>, one that prints every object as \<open>{}\<close>
  and one that always throws.
\<close>

definition stringify_braces :: stringify where
  "stringify_braces v = Inr ''{}''"

definition stringify_throws :: stringify where
  "stringify_throws v = Inl (error_of ''TypeError'' ''Converting circular structure to JSON'')"

definition three_method_span :: span where
  "three_method_span = Stub {M_setAttribute, M_setStatus, M_end}"

definition boom :: jsval where
  "boom = error_of ''Error'' ''boom''"

text \<open>
  The options createSpan hands to \<open>tracer.startSpan\<close>, and concrete configurations and
  SDK states: an SDK that works, and one whose tracer throws \<open>e\<close>.
\<close>

definition cfg_off :: config where
  "cfg_off = \<lparr>enabled = False, serviceName = JStr ''svc'', serviceVersion = JStr ''1.0.0'',
              environment = JStr ''test''\<rparr>"

definition cfg_on :: config where
  "cfg_on = \<lparr>enabled = True, serviceName = JStr ''svc'', serviceVersion = JStr ''1.0.0'',
              environment = JStr ''test''\<rparr>"

definition sdk_idle :: sdk where
  "sdk_idle = \<lparr>fault = None, events = []\<rparr>"

definition sdk_failing :: "jsval \<Rightarrow> sdk" where
  "sdk_failing e = \<lparr>fault = Some e, events = []\<rparr>"

definition created_options :: "config \<Rightarrow> props option \<Rightarrow> jsval \<Rightarrow> jsval \<Rightarrow> start_options" where
  "created_options config attrs kind links =
     \<lparr>so_kind = kind, so_links = links,
      so_attributes =
        spread [(''service.name'', serviceName config),
                (''service.version'', serviceVersion config),
                (''environment'', environment config)]
          (case attrs of None \<Rightarrow> [] | Some kvs \<Rightarrow> kvs)\<rparr>"

text \<open>
  Two functions to trace: each sets one attribute on the span it is given; the first
  then rejects with \<open>boom\<close>, the second resolves with 42.
\<close>

definition rejecting_fn :: "span \<Rightarrow> int fn_run" where
  "rejecting_fn span = \<lparr>made = [setAttribute ''db.rows'' (JNum 3)], completion = Rejects boom\<rparr>"

definition resolving_fn :: "span \<Rightarrow> int fn_run" where
  "resolving_fn span = \<lparr>made = [setAttribute ''db.rows'' (JNum 3)], completion = Resolves 42\<rparr>"

text \<open>A function that ends the span it is given itself, and then resolves with 42.\<close>

definition ending_fn :: "span \<Rightarrow> int fn_run" where
  "ending_fn span =
     \<lparr>made = [setAttribute ''db.rows'' (JNum 3), end_span], completion = Resolves 42\<rparr>"

section \<open>The metrics service (unnamed/part_010)\<close>

text \<open>
  Every object the service creates or gets from the SDK meter has an identity: its
  index in \<open>objects\<close>. An instrument of the meter keeps what was recorded on it and
  the callbacks registered on it; an object literal has the listed methods, each
  \<open>() => {}\<close>. The four \<open>Map\<close>s of the service send a metric key to the instrument
  registered under it.
\<close>

datatype instrument_kind = KCounter | KHistogram | KUpDownCounter | KObservableGauge

record instrument =
  i_kind :: instrument_kind
  i_name :: string
  i_description :: string
  i_unit :: string
  i_values :: "(int \<times> props) list"
  i_callbacks :: "(unit \<Rightarrow> int) list"

datatype mobject =
    Instrument instrument
  | Literal "string list"

record moptions =
  m_description :: "string option"
  m_unit :: "string option"

record metrics_service =
  metricsEnabled :: bool
  initialized :: bool
  prefix :: "string option"
  counters :: "string \<rightharpoonup> nat"
  histograms :: "string \<rightharpoonup> nat"
  upDownCounters :: "string \<rightharpoonup> nat"
  observableGauges :: "string \<rightharpoonup> nat"
  objects :: "mobject list"

text \<open>
  initialize, run by onModuleInit: nothing happens when metrics are disabled, and a
  failure while the exporter and the meter are set up is caught (\<open>setup_ok\<close> is
  False when that happens).
\<close>

definition initialize :: "bool \<Rightarrow> metrics_service \<Rightarrow> metrics_service" where
  "initialize setup_ok s =
     (if \<not> metricsEnabled s then s
      else if \<not> setup_ok then s
      else s\<lparr>initialized := True\<rparr>)"

text \<open>\<open>s || d\<close> on an optional string: \<open>undefined\<close> and the empty string give \<open>d\<close>.\<close>

definition or_default :: "string option \<Rightarrow> string \<Rightarrow> string" where
  "or_default v d = (case v of None \<Rightarrow> d | Some s \<Rightarrow> if s = [] then d else s)"

definition getMetricKey :: "metrics_service \<Rightarrow> string \<Rightarrow> string" where
  "getMetricKey s name =
     (let p = or_default (prefix s) [] in if p \<noteq> [] then p @ name else name)"

text \<open>\<open>meter.createCounter(key, {description, unit})\<close> and its siblings.\<close>

definition createInstrument ::
  "instrument_kind \<Rightarrow> string \<Rightarrow> string \<Rightarrow> string \<Rightarrow> metrics_service \<Rightarrow> nat \<times> metrics_service"
where
  "createInstrument k key descr un s =
     (length (objects s),
      s\<lparr>objects := objects s @
           [Instrument \<lparr>i_kind = k, i_name = key, i_description = descr, i_unit = un,
                        i_values = [], i_callbacks = []\<rparr>]\<rparr>)"

text \<open>An object literal \<open>{m: () => {}, ...}\<close>: a new object each time it is evaluated.\<close>

definition new_literal :: "string list \<Rightarrow> metrics_service \<Rightarrow> nat option \<times> metrics_service" where
  "new_literal ms s = (Some (length (objects s)), s\<lparr>objects := objects s @ [Literal ms]\<rparr>)"

text \<open>\<open>gauge.addCallback(cb)\<close> on an instrument of the meter.\<close>

definition addCallback :: "nat \<Rightarrow> (unit \<Rightarrow> int) \<Rightarrow> metrics_service \<Rightarrow> metrics_service" where
  "addCallback h cb s =
     (case objects s ! h of
        Instrument i \<Rightarrow>
          s\<lparr>objects := (objects s)[h := Instrument (i\<lparr>i_callbacks := i_callbacks i @ [cb]\<rparr>)]\<rparr>
      | Literal ms \<Rightarrow> s)"

text \<open>The accessors return the handle (\<open>Map.get\<close> may give \<open>undefined\<close>: \<open>None\<close>).\<close>

definition getCounter ::
  "string \<Rightarrow> moptions option \<Rightarrow> metrics_service \<Rightarrow> nat option \<times> metrics_service"
where
  "getCounter name options s =
     (if \<not> initialized s then new_literal [''add''] s
      else
        (let key = getMetricKey s name;
             s' = (if counters s key = None then
                     (case createInstrument KCounter key
                             (or_default (opt m_description None options) (''Counter for '' @ name))
                             (or_default (opt m_unit None options) ''1'') s of
                        (counter, s1) \<Rightarrow> s1\<lparr>counters := (counters s1)(key \<mapsto> counter)\<rparr>)
                   else s)
         in (counters s' key, s')))"

definition getHistogram ::
  "string \<Rightarrow> moptions option \<Rightarrow> metrics_service \<Rightarrow> nat option \<times> metrics_service"
where
  "getHistogram name options s =
     (if \<not> initialized s then new_literal [''record''] s
      else
        (let key = getMetricKey s name;
             s' = (if histograms s key = None then
                     (case createInstrument KHistogram key
                             (or_default (opt m_description None options) (''Histogram for '' @ name))
                             (or_default (opt m_unit None options) ''ms'') s of
                        (histogram, s1) \<Rightarrow> s1\<lparr>histograms := (histograms s1)(key \<mapsto> histogram)\<rparr>)
                   else s)
         in (histograms s' key, s')))"

definition getUpDownCounter ::
  "string \<Rightarrow> moptions option \<Rightarrow> metrics_service \<Rightarrow> nat option \<times> metrics_service"
where
  "getUpDownCounter name options s =
     (if \<not> initialized s then new_literal [''add''] s
      else
        (let key = getMetricKey s name;
             s' = (if upDownCounters s key = None then
                     (case createInstrument KUpDownCounter key
                             (or_default (opt m_description None options) (''UpDownCounter for '' @ name))
                             (or_default (opt m_unit None options) ''1'') s of
                        (upDownCounter, s1) \<Rightarrow>
                          s1\<lparr>upDownCounters := (upDownCounters s1)(key \<mapsto> upDownCounter)\<rparr>)
                   else s)
         in (upDownCounters s' key, s')))"

definition getObservableGauge ::
  "string \<Rightarrow> (unit \<Rightarrow> int) \<Rightarrow> moptions option \<Rightarrow> metrics_service \<Rightarrow> nat option \<times> metrics_service"
where
  "getObservableGauge name callback options s =
     (if \<not> initialized s then new_literal [] s
      else
        (let key = getMetricKey s name;
             s' = (if observableGauges s key = None then
                     (case createInstrument KObservableGauge key
                             (or_default (opt m_description None options) (''Gauge for '' @ name))
                             (or_default (opt m_unit None options) ''1'') s of
                        (gauge, s1) \<Rightarrow>
                          (let s2 = addCallback gauge callback s1
                           in s2\<lparr>observableGauges := (observableGauges s2)(key \<mapsto> gauge)\<rparr>))
                   else s)
         in (observableGauges s' key, s')))"

text \<open>
  Using a handle: \<open>handle.add(v, attrs)\<close>, \<open>handle.record(v, attrs)\<close>,
  \<open>handle.addCallback(cb)\<close>. A counter has \<open>add\<close>, a histogram \<open>record\<close>, a gauge
  \<open>addCallback\<close> and \<open>removeCallback\<close>; a method the object does not have throws,
  and so does any use of \<open>undefined\<close>.
\<close>

datatype mcall =
    Add int props
  | Record int props
  | AddCallback "unit \<Rightarrow> int"

fun mcall_name :: "mcall \<Rightarrow> string" where
  "mcall_name (Add v a) = ''add''"
| "mcall_name (Record v a) = ''record''"
| "mcall_name (AddCallback cb) = ''addCallback''"

fun kind_methods :: "instrument_kind \<Rightarrow> string list" where
  "kind_methods KCounter = [''add'']"
| "kind_methods KHistogram = [''record'']"
| "kind_methods KUpDownCounter = [''add'']"
| "kind_methods KObservableGauge = [''addCallback'', ''removeCallback'']"

fun apply_mcall :: "mcall \<Rightarrow> instrument \<Rightarrow> instrument" where
  "apply_mcall (Add v a) i = i\<lparr>i_values := i_values i @ [(v, a)]\<rparr>"
| "apply_mcall (Record v a) i = i\<lparr>i_values := i_values i @ [(v, a)]\<rparr>"
| "apply_mcall (AddCallback cb) i = i\<lparr>i_callbacks := i_callbacks i @ [cb]\<rparr>"

definition not_a_function :: "string \<Rightarrow> jsval" where
  "not_a_function m = error_of ''TypeError'' (m @ '' is not a function'')"

definition call_on :: "nat option \<Rightarrow> mcall \<Rightarrow> metrics_service \<Rightarrow> jsval option \<times> metrics_service" where
  "call_on handle c s =
     (case handle of
        None \<Rightarrow> (Some cannot_read, s)
      | Some h \<Rightarrow>
          if h < length (objects s) then
            (case objects s ! h of
               Literal ms \<Rightarrow>
                 if mcall_name c \<in> set ms then (None, s)
                 else (Some (not_a_function (mcall_name c)), s)
             | Instrument i \<Rightarrow>
                 if mcall_name c \<in> set (kind_methods (i_kind i))
                 then (None, s\<lparr>objects := (objects s)[h := Instrument (apply_mcall c i)]\<rparr>)
                 else (Some (not_a_function (mcall_name c)), s))
          else (Some cannot_read, s))"

text \<open>What a gauge reports when the meter collects: the values its callbacks give.\<close>

definition observe :: "metrics_service \<Rightarrow> nat \<Rightarrow> int list" where
  "observe s h =
     (if h < length (objects s) then
        (case objects s ! h of
           Instrument i \<Rightarrow> map (\<lambda>cb. cb ()) (i_callbacks i)
         | Literal ms \<Rightarrow> [])
      else [])"

section \<open>The observability facade (unnamed/part_009)\<close>

text \<open>recordGaugeMetric: the callback is a closure over the value given.\<close>

definition recordGaugeMetric :: "string \<Rightarrow> int \<Rightarrow> props \<Rightarrow> metrics_service \<Rightarrow> metrics_service" where
  "recordGaugeMetric name v attrs s =
     (let callback = (\<lambda>u. v) in snd (getObservableGauge name callback None s))"

text \<open>The service as constructed, before onModuleInit.\<close>

definition new_service :: "bool \<Rightarrow> string option \<Rightarrow> metrics_service" where
  "new_service on p =
     \<lparr>metricsEnabled = on, initialized = False, prefix = p,
      counters = Map.empty, histograms = Map.empty, upDownCounters = Map.empty,
      observableGauges = Map.empty, objects = []\<rparr>"

text \<open>
  A sequence of later recordGaugeMetric calls (name, value, attributes), and the
  fact that a gauge is registered under a key as a given object.
\<close>

definition record_all :: "(string \<times> int \<times> props) list \<Rightarrow> metrics_service \<Rightarrow> metrics_service" where
  "record_all later s = foldl (\<lambda>s' c. recordGaugeMetric (fst c) (fst (snd c)) (snd (snd c)) s') s later"

definition gauge_registered :: "metrics_service \<Rightarrow> string \<Rightarrow> nat \<Rightarrow> mobject \<Rightarrow> metrics_service \<Rightarrow> bool" where
  "gauge_registered s0 key h g s =
     (initialized s \<and> prefix s = prefix s0 \<and> observableGauges s key = Some h
      \<and> h < length (objects s) \<and> objects s ! h = g)"

subsection \<open>Notions used to state what the metrics service does\<close>

text \<open>
  The \<open>Map\<close> of a kind of instrument. The four accessors are one pattern,
  \<open>get_or_create\<close>, with the kind, the stub, the words of the default description,
  the default unit and (for a gauge) the callback filled in; the theorems below
  prove that each accessor is such an instance.
\<close>

fun cache_of :: "instrument_kind \<Rightarrow> metrics_service \<Rightarrow> (string \<rightharpoonup> nat)" where
  "cache_of KCounter s = counters s"
| "cache_of KHistogram s = histograms s"
| "cache_of KUpDownCounter s = upDownCounters s"
| "cache_of KObservableGauge s = observableGauges s"

fun set_cache :: "instrument_kind \<Rightarrow> (string \<rightharpoonup> nat) \<Rightarrow> metrics_service \<Rightarrow> metrics_service" where
  "set_cache KCounter m s = s\<lparr>counters := m\<rparr>"
| "set_cache KHistogram m s = s\<lparr>histograms := m\<rparr>"
| "set_cache KUpDownCounter m s = s\<lparr>upDownCounters := m\<rparr>"
| "set_cache KObservableGauge m s = s\<lparr>observableGauges := m\<rparr>"

definition get_or_create ::
  "instrument_kind \<Rightarrow> string list \<Rightarrow> string \<Rightarrow> string \<Rightarrow> (unit \<Rightarrow> int) option \<Rightarrow> string
   \<Rightarrow> moptions option \<Rightarrow> metrics_service \<Rightarrow> nat option \<times> metrics_service"
where
  "get_or_create k lit label dunit cbo name options s =
     (if \<not> initialized s then new_literal lit s
      else
        (let key = getMetricKey s name;
             s' = (if cache_of k s key = None then
                     (case createInstrument k key
                             (or_default (opt m_description None options) (label @ name))
                             (or_default (opt m_unit None options) dunit) s of
                        (h, s1) \<Rightarrow>
                          (let s2 = (case cbo of None \<Rightarrow> s1 | Some cb \<Rightarrow> addCallback h cb s1)
                           in set_cache k ((cache_of k s2)(key \<mapsto> h)) s2))
                   else s)
         in (cache_of k s' key, s')))"

text \<open>The instrument a cache miss creates.\<close>

definition created ::
  "instrument_kind \<Rightarrow> string \<Rightarrow> string \<Rightarrow> (unit \<Rightarrow> int) option \<Rightarrow> string \<Rightarrow> moptions option
   \<Rightarrow> metrics_service \<Rightarrow> instrument"
where
  "created k label dunit cbo n opts s =
     \<lparr>i_kind = k, i_name = getMetricKey s n,
      i_description = or_default (opt m_description None opts) (label @ n),
      i_unit = or_default (opt m_unit None opts) dunit,
      i_values = [],
      i_callbacks = (case cbo of None \<Rightarrow> [] | Some cb \<Rightarrow> [cb])\<rparr>"

text \<open>
  What can happen to the service during its lifetime: initialize, the accessors, and
  calls on a handle. A state of the service is one that \<open>run_ops\<close> reaches from
  \<open>new_service\<close>.
\<close>

datatype registry_op =
    Initialize bool
  | GetCounter string "moptions option"
  | GetHistogram string "moptions option"
  | GetUpDownCounter string "moptions option"
  | GetObservableGauge string "unit \<Rightarrow> int" "moptions option"
  | CallOn "nat option" mcall

fun perform :: "registry_op \<Rightarrow> metrics_service \<Rightarrow> metrics_service" where
  "perform (Initialize setup_ok) s = initialize setup_ok s"
| "perform (GetCounter n opts) s = snd (getCounter n opts s)"
| "perform (GetHistogram n opts) s = snd (getHistogram n opts s)"
| "perform (GetUpDownCounter n opts) s = snd (getUpDownCounter n opts s)"
| "perform (GetObservableGauge n cb opts) s = snd (getObservableGauge n cb opts s)"
| "perform (CallOn h c) s = snd (call_on h c s)"

definition run_ops :: "registry_op list \<Rightarrow> metrics_service \<Rightarrow> metrics_service" where
  "run_ops ops s = foldl (\<lambda>s' op. perform op s') s ops"

text \<open>
  The registry is in order when every cached handle is an instrument of the meter of
  that kind and name, and every instrument of the meter is the one cached under its
  kind and name.
\<close>

definition registry_ok :: "metrics_service \<Rightarrow> bool" where
  "registry_ok s =
     ((\<forall>k key h. cache_of k s key = Some h \<longrightarrow>
         h < length (objects s) \<and>
         (\<exists>i. objects s ! h = Instrument i \<and> i_kind i = k \<and> i_name i = key))
      \<and> (\<forall>h i. h < length (objects s) \<and> objects s ! h = Instrument i \<longrightarrow>
            cache_of (i_kind i) s (i_name i) = Some h))"

text \<open>
  The fully-qualified name: the configured prefix (the empty string when none is
  configured) before the logical name.
\<close>

definition fq_name :: "metrics_service \<Rightarrow> string \<Rightarrow> string" where
  "fq_name s n = or_default (prefix s) [] @ n"

text \<open>
  An accessor gives a stable handle for \<open>n\<close> in \<open>s\<close>: there is one handle that
  every call in \<open>s\<close> returns, whatever the options (and the callback \<open>x\<close>); it is
  registered under the fully-qualified name, where an instrument of that kind and
  name stands; and every later call, after anything that can happen to the service,
  returns it again and changes nothing.
\<close>

definition stable_handle ::
  "instrument_kind \<Rightarrow> ('x \<Rightarrow> string \<Rightarrow> moptions option \<Rightarrow> metrics_service \<Rightarrow> nat option \<times> metrics_service)
   \<Rightarrow> string \<Rightarrow> metrics_service \<Rightarrow> bool"
where
  "stable_handle k acc n s =
     (\<exists>h. \<forall>x opts.
        fst (acc x n opts s) = Some h
        \<and> cache_of k (snd (acc x n opts s)) (fq_name s n) = Some h
        \<and> h < length (objects (snd (acc x n opts s)))
        \<and> (\<exists>i. objects (snd (acc x n opts s)) ! h = Instrument i \<and> i_kind i = k
               \<and> i_name i = fq_name s n)
        \<and> (\<forall>ops x' opts'.
              acc x' n opts' (run_ops ops (snd (acc x n opts s)))
                = (Some h, run_ops ops (snd (acc x n opts s)))))"

text \<open>No two instruments of the meter have the same kind and name.\<close>

definition one_per_name :: "metrics_service \<Rightarrow> bool" where
  "one_per_name s =
     (\<forall>h1 h2 i1 i2.
        h1 < length (objects s) \<and> h2 < length (objects s)
        \<and> objects s ! h1 = Instrument i1 \<and> objects s ! h2 = Instrument i2
        \<and> i_kind i1 = i_kind i2 \<and> i_name i1 = i_name i2 \<longrightarrow> h1 = h2)"

text \<open>A service with the prefix \<open>app.\<close>, initialized.\<close>

definition app_service :: metrics_service where
  "app_service = run_ops [Initialize True] (new_service True (Some ''app.''))"

section \<open>The request-payload sanitizer (lib/tracing/interceptors/tracing.interceptor.ts)\<close>

text \<open>
  Strings are lists of 8-bit characters, and \<open>toLowerCase\<close> maps the letters A to Z:
  the model covers keys written in ASCII.
\<close>

definition sensitiveFields :: "string list" where
  "sensitiveFields =
     [''password'', ''token'', ''secret'', ''authorization'', ''key'', ''apiKey'', ''api_key'',
      ''credential'', ''credentials'', ''accessToken'', ''refreshToken'', ''auth'',
      ''jwt'', ''session'', ''cookie'', ''csrf'', ''ssn'', ''cc'', ''card'', ''cvv'', ''pin'']"

definition lower_char :: "char \<Rightarrow> char" where
  "lower_char c =
     (case map_of (zip ''ABCDEFGHIJKLMNOPQRSTUVWXYZ'' ''abcdefghijklmnopqrstuvwxyz'') c of
        Some l \<Rightarrow> l
      | None \<Rightarrow> c)"

definition toLowerCase :: "string \<Rightarrow> string" where
  "toLowerCase s = map lower_char s"

text \<open>\<open>s.includes(t)\<close>: \<open>t\<close> occurs in \<open>s\<close> as a substring.\<close>

fun startsWith :: "string \<Rightarrow> string \<Rightarrow> bool" where
  "startsWith s [] = True"
| "startsWith [] (c # t) = False"
| "startsWith (a # s) (c # t) = (a = c \<and> startsWith s t)"

fun str_includes :: "string \<Rightarrow> string \<Rightarrow> bool" where
  "str_includes [] t = (t = [])"
| "str_includes (a # s) t = (startsWith (a # s) t \<or> str_includes s t)"

text \<open>\<open>sensitiveFields.some(field => key.toLowerCase().includes(field.toLowerCase()))\<close>.\<close>

definition is_sensitive :: "string \<Rightarrow> bool" where
  "is_sensitive key =
     list_ex (\<lambda>field. str_includes (toLowerCase key) (toLowerCase field)) sensitiveFields"

text \<open>
  \<open>{...data}\<close> copies the own enumerable properties of \<open>data\<close>: the entries of an
  object, the elements of an array under their indices written in decimal, the
  characters of a string likewise, and nothing for any other value.
\<close>

definition digit_char :: "nat \<Rightarrow> char" where
  "digit_char d = ''0123456789'' ! d"

fun index_key :: "nat \<Rightarrow> string" where
  "index_key n =
     (if n < 10 then [digit_char n] else index_key (n div 10) @ [digit_char (n mod 10)])"

declare index_key.simps [simp del]

fun index_entries :: "nat \<Rightarrow> jsval list \<Rightarrow> props" where
  "index_entries i [] = []"
| "index_entries i (x # xs) = (index_key i, x) # index_entries (Suc i) xs"

fun own_entries :: "jsval \<Rightarrow> props" where
  "own_entries (JObj kvs) = kvs"
| "own_entries (JArr xs) = index_entries 0 xs"
| "own_entries (JStr s) = index_entries 0 (map (\<lambda>c. JStr [c]) s)"
| "own_entries v = []"

text \<open>
  sanitizeData as a function of values: the copy has the keys of \<open>data\<close> in the same
  order, and the loop over the keys gives each one its new value. (The section on
  the heap below models the copy and the assignments one by one.)
\<close>

function sanitizeData :: "jsval \<Rightarrow> jsval" where
  "sanitizeData data =
     JObj (map (\<lambda>kv. if is_sensitive (fst kv) then (fst kv, JStr ''[REDACTED]'')
                      else if typeof_object (snd kv) \<and> snd kv \<noteq> JNull
                        then (fst kv, sanitizeData (snd kv))
                      else kv)
              (own_entries data))"
  by pat_completeness auto
termination
proof (relation "measure size")
  show "wf (measure size)" by simp
next
  fix data :: jsval and kv :: "string \<times> jsval"
  assume m: "kv \<in> set (own_entries data)" and o: "typeof_object (snd kv) \<and> snd kv \<noteq> JNull"
  have arr: "kv \<in> set (index_entries i xs) \<Longrightarrow> size (snd kv) < Suc (size_list size xs)" for i xs
    by (induction xs arbitrary: i) fastforce+
  have obj: "kv \<in> set kvs \<Longrightarrow> size (snd kv) < Suc (size_list (size_prod (\<lambda>x. 0) size) kvs)" for kvs
    by (induction kvs) fastforce+
  have str: "kv \<in> set (index_entries i (map (\<lambda>c. JStr [c]) s)) \<Longrightarrow> \<not> typeof_object (snd kv)" for i s
    by (induction s arbitrary: i) auto
  from m o have "size (snd kv) < size data"
    by (cases data) (auto dest: arr obj str)
  then show "(snd kv, data) \<in> measure size" by simp
qed

declare sanitizeData.simps [simp del]

text \<open>
  The redaction rule as the specification words it: the sensitive terms it lists,
  looked for in the lowercased key.
\<close>

definition claimed_terms :: "string list" where
  "claimed_terms =
     [''password'', ''token'', ''secret'', ''authorization'', ''key'', ''credential'',
      ''accessToken'', ''refreshToken'', ''auth'', ''jwt'', ''session'', ''cookie'', ''csrf'',
      ''ssn'', ''cc'', ''card'', ''cvv'', ''pin'']"

definition redact_entry :: "string \<times> jsval \<Rightarrow> string \<times> jsval" where
  "redact_entry kv =
     (if list_ex (\<lambda>w. str_includes (toLowerCase (fst kv)) w) claimed_terms
        then (fst kv, JStr ''[REDACTED]'')
      else case snd kv of
             JObj kvs \<Rightarrow> (fst kv, sanitizeData (JObj kvs))
           | JArr xs \<Rightarrow> (fst kv, sanitizeData (JArr xs))
           | v \<Rightarrow> (fst kv, v))"

section \<open>The tracing service of the observability module (lib/services/tracing.service.ts)\<close>

text \<open>
  The spans the tracer started, each with its name, its kind and the calls made on
  it, in the order they were started; \<open>current\<close> is the span of the active ambient
  context, if any. A span of the SDK and the non-recording span of the API have every
  method of the interface. The metrics service, the logging service (initialized or
  not) and the log records written are part of the same world.
\<close>

record tspan =
  t_name :: string
  t_kind :: jsval
  t_calls :: "call list"

datatype span_handle = NonRecording | Started nat

record world =
  tracer_ready :: bool
  tspans :: "tspan list"
  current :: "nat option"
  metrics :: metrics_service
  logging_ready :: bool
  logged :: "(string \<times> string) list"

definition span_call :: "span_handle \<Rightarrow> call \<Rightarrow> world \<Rightarrow> world" where
  "span_call span c w =
     (case span of
        NonRecording \<Rightarrow> w
      | Started i \<Rightarrow>
          if i < length (tspans w)
          then w\<lparr>tspans := (tspans w)[i := (tspans w ! i)\<lparr>t_calls := t_calls (tspans w ! i) @ [c]\<rparr>]\<rparr>
          else w)"

text \<open>
  \<open>error instanceof Error\<close> and \<open>new Error(msg)\<close>. Values carry no prototype: the
  instances of \<open>Error\<close> are the objects with a name, a message and a stack, which is
  what sets them apart from an object literal such as \<open>{name, message}\<close>.
  \<open>String(v)\<close> belongs to the engine and is the parameter \<open>str\<close> below.
\<close>

definition instanceof_Error :: "jsval \<Rightarrow> bool" where
  "instanceof_Error v =
     (case v of
        JObj kvs \<Rightarrow>
          map_of kvs ''name'' \<noteq> None \<and> map_of kvs ''message'' \<noteq> None
          \<and> (case map_of kvs ''stack'' of Some (JStr s) \<Rightarrow> True | _ \<Rightarrow> False)
      | _ \<Rightarrow> False)"

definition new_Error :: "string \<Rightarrow> jsval" where
  "new_Error msg = error_of ''Error'' msg"

definition getCurrentSpan :: "world \<Rightarrow> span_handle option" where
  "getCurrentSpan w = (if \<not> tracer_ready w then None else map_option Started (current w))"

text \<open>
  traceAsync. The function it runs is asynchronous: it gives back either a rejection
  (\<open>Inl\<close>) or a value. \<open>context.with\<close> makes the new span current while the function
  runs and restores the context afterwards.
\<close>

definition traceAsync ::
  "(jsval \<Rightarrow> string) \<Rightarrow> string \<Rightarrow> (span_handle \<Rightarrow> world \<Rightarrow> (jsval + 'a) \<times> world) \<Rightarrow> jsval
   \<Rightarrow> world \<Rightarrow> (jsval + 'a) \<times> world"
where
  "traceAsync str name fn kind w =
     (if \<not> tracer_ready w then fn NonRecording w
      else
        (let span = Started (length (tspans w));
             w1 = w\<lparr>tspans := tspans w @ [\<lparr>t_name = name, t_kind = kind, t_calls = []\<rparr>]\<rparr>;
             outer = current w1
         in case fn span (w1\<lparr>current := Some (length (tspans w))\<rparr>) of
              (Inr result, w2) \<Rightarrow>
                (Inr result,
                 (span_call span end_span (span_call span setStatus_OK w2))\<lparr>current := outer\<rparr>)
            | (Inl error, w2) \<Rightarrow>
                (Inl error,
                 (span_call span end_span
                   (span_call span
                      (recordException
                         (if instanceof_Error error then error else new_Error (str error)))
                      (span_call span
                         (setStatus_ERROR
                            (if instanceof_Error error then get_prop error ''message''
                             else JStr (str error)))
                         w2)))\<lparr>current := outer\<rparr>)))"

definition setError :: "(jsval \<Rightarrow> string) \<Rightarrow> jsval \<Rightarrow> world \<Rightarrow> world" where
  "setError str error w =
     (case getCurrentSpan w of
        None \<Rightarrow> w
      | Some span \<Rightarrow>
          span_call span
            (recordException (if instanceof_Error error then error else new_Error (str error)))
            (span_call span
               (setStatus_ERROR (if instanceof_Error error then get_prop error ''message'' else error))
               w))"

text \<open>
  LoggingService.log (lib/services/logging.service.ts), with the records written as a
  list. A service that is not initialized hands the message, followed by the JSON
  text of the metadata, to the Nest logger; \<open>JSON.stringify\<close> may throw. An
  initialized service first reads the ids of the span of the active context, if there
  is one, by calling \<open>spanContext()\<close> on it, and writes the message to the console.
\<close>

definition write_log ::
  "stringify \<Rightarrow> string \<Rightarrow> string \<Rightarrow> jsval \<Rightarrow> world \<Rightarrow> jsval option \<times> world"
where
  "write_log js level message metadata w =
     (if \<not> logging_ready w then
        (case js metadata of
           Inl e \<Rightarrow> (Some e, w)
         | Inr text \<Rightarrow> (None, w\<lparr>logged := logged w @ [(level, message @ '' '' @ text)]\<rparr>))
      else
        (let w1 = (case current w of
                     None \<Rightarrow> w
                   | Some i \<Rightarrow> span_call (Started i) (Call M_spanContext []) w)
         in (None, w1\<lparr>logged := logged w1 @ [(level, message)]\<rparr>)))"

subsection \<open>The HTTP recorders of the metrics service (unnamed/part_010)\<close>

definition recordHttpRequestDuration ::
  "int \<Rightarrow> props \<Rightarrow> metrics_service \<Rightarrow> jsval option \<times> metrics_service"
where
  "recordHttpRequestDuration duration attrs s =
     (if \<not> initialized s then (None, s)
      else
        (case getHistogram ''http.request.duration'' None s of
           (histogram, s1) \<Rightarrow> call_on histogram (Record duration attrs) s1))"

definition incrementHttpRequestTotal :: "props \<Rightarrow> metrics_service \<Rightarrow> jsval option \<times> metrics_service" where
  "incrementHttpRequestTotal attrs s =
     (if \<not> initialized s then (None, s)
      else
        (case getCounter ''http.request.total'' None s of
           (counter, s1) \<Rightarrow> call_on counter (Add 1 attrs) s1))"

definition incrementHttpErrorTotal :: "props \<Rightarrow> metrics_service \<Rightarrow> jsval option \<times> metrics_service" where
  "incrementHttpErrorTotal attrs s =
     (if \<not> initialized s then (None, s)
      else
        (case getCounter ''http.error.total'' None s of
           (counter, s1) \<Rightarrow> call_on counter (Add 1 attrs) s1))"

definition recordHttpRequestSize ::
  "int \<Rightarrow> props \<Rightarrow> metrics_service \<Rightarrow> jsval option \<times> metrics_service"
where
  "recordHttpRequestSize bytes attrs s =
     (if \<not> initialized s then (None, s)
      else
        (case getHistogram ''http.request.size''
                (Some \<lparr>m_description = None, m_unit = Some ''By''\<rparr>) s of
           (histogram, s1) \<Rightarrow> call_on histogram (Record bytes attrs) s1))"

definition recordHttpResponseSize ::
  "int \<Rightarrow> props \<Rightarrow> metrics_service \<Rightarrow> jsval option \<times> metrics_service"
where
  "recordHttpResponseSize bytes attrs s =
     (if \<not> initialized s then (None, s)
      else
        (case getHistogram ''http.response.size''
                (Some \<lparr>m_description = None, m_unit = Some ''By''\<rparr>) s of
           (histogram, s1) \<Rightarrow> call_on histogram (Record bytes attrs) s1))"

section \<open>The HTTP interceptor (lib/interceptors/http-trace.interceptor.ts)\<close>

text \<open>
  What the interceptor reads of a request and of its response, and what the
  observable of \<open>next.handle()\<close> does once it is subscribed: it emits a value or it
  fails with an error.
\<close>

record request =
  r_method :: string
  r_url :: string
  r_headers :: props
  r_params :: jsval
  r_query :: jsval
  r_route_path :: jsval
  r_body :: jsval
  r_statusCode :: jsval

datatype handled = Emits jsval | Fails jsval

definition http_attributes :: "request \<Rightarrow> props" where
  "http_attributes req =
     [(''http.method'', JStr (r_method req)),
      (''http.url'', JStr (r_url req)),
      (''http.host'', get_prop (JObj (r_headers req)) ''host''),
      (''http.user_agent'', get_prop (JObj (r_headers req)) ''user-agent''),
      (''http.route'', js_or (r_route_path req) (JStr (r_url req)))]"

definition SpanKind_SERVER :: jsval where
  "SpanKind_SERVER = JNum 1"

text \<open>
  The function the interceptor hands to traceAsync: it sets the attributes, logs,
  counts the request, records the size of the body, and returns the observable of
  \<open>next.handle()\<close> as it is, not yet subscribed.
\<close>

definition request_fn ::
  "stringify \<Rightarrow> request \<Rightarrow> handled \<Rightarrow> span_handle \<Rightarrow> world \<Rightarrow> (jsval + handled) \<times> world"
where
  "request_fn js req next_handle span w =
     (let attributes = http_attributes req;
          w1 = span_call span (Call M_setAttributes [JObj attributes]) w
      in case write_log js ''debug'' (''Incoming request: '' @ r_method req @ '' '' @ r_url req)
                (JObj [(''params'', r_params req), (''query'', r_query req),
                       (''headers'', JObj (r_headers req))]) w1 of
           (Some e, w2) \<Rightarrow> (Inl e, w2)
         | (None, w2) \<Rightarrow>
             (case incrementHttpRequestTotal attributes (metrics w2) of
                (Some e, m) \<Rightarrow> (Inl e, w2\<lparr>metrics := m\<rparr>)
              | (None, m) \<Rightarrow>
                  (let w3 = w2\<lparr>metrics := m\<rparr> in
                   if truthy (r_body req) \<and> length (own_entries (r_body req)) > 0 then
                     (case js (r_body req) of
                        Inl e \<Rightarrow> (Inl e, w3)
                      | Inr text \<Rightarrow>
                          (case recordHttpRequestSize (int (length text)) attributes (metrics w3) of
                             (Some e, m') \<Rightarrow> (Inl e, w3\<lparr>metrics := m'\<rparr>)
                           | (None, m') \<Rightarrow> (Inr next_handle, w3\<lparr>metrics := m'\<rparr>)))
                   else (Inr next_handle, w3))))"

text \<open>
  The callbacks of \<open>tap\<close> and \<open>catchError\<close>; \<open>duration\<close> is \<open>Date.now() - start\<close>
  when the callback runs. An error thrown inside \<open>tap\<close> reaches \<open>catchError\<close>; an
  error thrown inside \<open>catchError\<close> is what the subscriber gets.
\<close>

definition on_next ::
  "stringify \<Rightarrow> (jsval \<Rightarrow> string) \<Rightarrow> request \<Rightarrow> int \<Rightarrow> jsval \<Rightarrow> world \<Rightarrow> jsval option \<times> world"
where
  "on_next js str req duration data w =
     (let statusCode = r_statusCode req;
          responseAttributes =
            spread (http_attributes req)
              [(''http.status_code'', statusCode), (''http.duration_ms'', JNum duration)];
          w1 = (case getCurrentSpan w of
                  None \<Rightarrow> w
                | Some span \<Rightarrow> span_call span (Call M_setAttributes [JObj responseAttributes]) w)
      in case recordHttpRequestDuration duration responseAttributes (metrics w1) of
           (Some e, m) \<Rightarrow> (Some e, w1\<lparr>metrics := m\<rparr>)
         | (None, m) \<Rightarrow>
             (let w2 = w1\<lparr>metrics := m\<rparr>;
                  finish = write_log js ''info''
                    (''Request completed: '' @ r_method req @ '' '' @ r_url req @ '' ''
                       @ str statusCode @ '' '' @ str (JNum duration) @ ''ms'')
                    (JObj responseAttributes)
              in if truthy data then
                   (case js data of
                      Inl e \<Rightarrow> (Some e, w2)
                    | Inr text \<Rightarrow>
                        (case recordHttpResponseSize (int (length text)) responseAttributes
                                (metrics w2) of
                           (Some e, m') \<Rightarrow> (Some e, w2\<lparr>metrics := m'\<rparr>)
                         | (None, m') \<Rightarrow> finish (w2\<lparr>metrics := m'\<rparr>)))
                 else finish w2))"

definition on_error ::
  "stringify \<Rightarrow> (jsval \<Rightarrow> string) \<Rightarrow> request \<Rightarrow> int \<Rightarrow> jsval \<Rightarrow> world \<Rightarrow> jsval \<times> world"
where
  "on_error js str req duration error w =
     (let statusCode = js_or (r_statusCode req) (JNum 500) in
      if error = JUndefined \<or> error = JNull then (cannot_read, w)
      else
        (let errorAttributes =
               spread (http_attributes req)
                 [(''http.status_code'', statusCode),
                  (''error'', JBool True),
                  (''error.name'', get_prop error ''name''),
                  (''error.message'', get_prop error ''message''),
                  (''http.duration_ms'', JNum duration)]
         in case incrementHttpErrorTotal errorAttributes (metrics w) of
              (Some e, m) \<Rightarrow> (e, w\<lparr>metrics := m\<rparr>)
            | (None, m) \<Rightarrow>
                (case recordHttpRequestDuration duration errorAttributes m of
                   (Some e, m') \<Rightarrow> (e, w\<lparr>metrics := m'\<rparr>)
                 | (None, m') \<Rightarrow>
                     (case write_log js ''error''
                             (''Request failed: '' @ r_method req @ '' '' @ r_url req @ '' ''
                                @ str statusCode)
                             (JObj (spread errorAttributes [(''trace'', get_prop error ''stack'')]))
                             (setError str error (w\<lparr>metrics := m'\<rparr>)) of
                        (None, w') \<Rightarrow> (error, w')
                      | (Some e, w') \<Rightarrow> (e, w')))))"

text \<open>
  intercept, as the subscriber of the returned observable sees it. \<open>from(promise)\<close>
  emits when the promise of traceAsync has resolved, that is after traceAsync has
  set the status of its span and ended it; only then does \<open>switchMap\<close> subscribe
  the observable of \<open>next.handle()\<close>, so the handler's value or error arrives
  afterwards, outside the span's context.
\<close>

definition intercept ::
  "stringify \<Rightarrow> (jsval \<Rightarrow> string) \<Rightarrow> request \<Rightarrow> handled \<Rightarrow> int \<Rightarrow> world \<Rightarrow> (jsval + jsval) \<times> world"
where
  "intercept js str req next_handle duration w =
     (case traceAsync str (''HTTP '' @ r_method req @ '' '' @ r_url req)
             (request_fn js req next_handle) SpanKind_SERVER w of
        (Inl e, w1) \<Rightarrow> (Inl e, w1)
      | (Inr (Emits data), w1) \<Rightarrow>
          (case on_next js str req duration data w1 of
             (None, w2) \<Rightarrow> (Inr data, w2)
           | (Some e, w2) \<Rightarrow>
               (case on_error js str req duration e w2 of (e', w3) \<Rightarrow> (Inl e', w3)))
      | (Inr (Fails error), w1) \<Rightarrow>
          (case on_error js str req duration error w1 of (e', w2) \<Rightarrow> (Inl e', w2)))"

text \<open>
  A concrete request into a world where tracing, metrics and logging are initialized, a stand-in
  for \<open>String\<close>, and the values recorded on the instruments of a given name.
\<close>

definition js_String :: "jsval \<Rightarrow> string" where
  "js_String v = (case v of JStr s \<Rightarrow> s | _ \<Rightarrow> ''?'')"

definition get_users :: request where
  "get_users =
     \<lparr>r_method = ''GET'', r_url = ''/users'',
      r_headers = [(''host'', JStr ''localhost''), (''user-agent'', JStr ''curl'')],
      r_params = JObj [], r_query = JObj [],
      r_route_path = JStr ''/users'', r_body = JUndefined,
      r_statusCode = JNum 200\<rparr>"

definition ready_world :: world where
  "ready_world =
     \<lparr>tracer_ready = True, tspans = [], current = None,
      metrics = initialize True (new_service True None), logging_ready = True, logged = []\<rparr>"

definition values_of :: "string \<Rightarrow> metrics_service \<Rightarrow> (int \<times> props) list" where
  "values_of name s =
     concat (map (\<lambda>ob. case ob of
                          Instrument i \<Rightarrow> if i_name i = name then i_values i else []
                        | Literal ms \<Rightarrow> [])
               (objects s))"

section \<open>The sanitizer on the heap\<close>

text \<open>
  To say what sanitizeData does to its argument, objects get identities: the heap is
  the list of the objects allocated so far, an object is known by its index, and a
  value is a primitive or a reference to an object. An object is a plain object or an
  array (whose properties are its elements under their indices).
\<close>

datatype hval = HUndefined | HNull | HBool bool | HNum int | HStr string | HRef nat

datatype okind = PlainObject | ArrayObject

type_synonym hobject = "okind \<times> (string \<times> hval) list"
type_synonym heap = "hobject list"

text \<open>\<open>o[key]\<close> and \<open>o[key] = v\<close> for the object at address \<open>a\<close>.\<close>

definition h_get :: "heap \<Rightarrow> nat \<Rightarrow> string \<Rightarrow> hval" where
  "h_get h a key = (case map_of (snd (h ! a)) key of Some v \<Rightarrow> v | None \<Rightarrow> HUndefined)"

definition h_set :: "nat \<Rightarrow> string \<Rightarrow> hval \<Rightarrow> heap \<Rightarrow> heap" where
  "h_set a key v h = h[a := (fst (h ! a), set_prop key v (snd (h ! a)))]"

text \<open>
  sanitizeData, statement by statement: \<open>{...data}\<close> allocates the copy, the keys of
  the copy are listed once, and the loop assigns to the copy key by key, calling
  sanitizeData again on a value that is an object. The first argument is the depth
  of call stack that is left: when it is used up (a cyclic structure does that) the
  call fails, and \<open>None\<close> is returned with the heap as it then is.
\<close>

fun sanitizeDataH :: "nat \<Rightarrow> nat \<Rightarrow> heap \<Rightarrow> nat option \<times> heap"
  and sanitize_keys :: "nat \<Rightarrow> nat \<Rightarrow> string list \<Rightarrow> heap \<Rightarrow> bool \<times> heap"
where
  "sanitizeDataH 0 data h = (None, h)"
| "sanitizeDataH (Suc depth) data h =
     (if data < length h then
        (let sanitized = length h;
             h1 = h @ [(PlainObject, snd (h ! data))]
         in case sanitize_keys depth sanitized (map fst (snd (h1 ! sanitized))) h1 of
              (True, h2) \<Rightarrow> (Some sanitized, h2)
            | (False, h2) \<Rightarrow> (None, h2))
      else (None, h))"
| "sanitize_keys depth sanitized [] h = (True, h)"
| "sanitize_keys depth sanitized (key # keys) h =
     (if is_sensitive key then
        sanitize_keys depth sanitized keys (h_set sanitized key (HStr ''[REDACTED]'') h)
      else
        (case h_get h sanitized key of
           HRef nested \<Rightarrow>
             (case sanitizeDataH depth nested h of
                (Some r, h') \<Rightarrow>
                  sanitize_keys depth sanitized keys (h_set sanitized key (HRef r) h')
              | (None, h') \<Rightarrow> (False, h'))
         | v \<Rightarrow> sanitize_keys depth sanitized keys h))"

text \<open>
  The finite value that a heap holds at a value, read \<open>n\<close> objects deep: \<open>None\<close>
  when the structure is deeper than that (or cyclic), refers to no object, or holds
  an object with a repeated key or an array whose keys are not its indices.
\<close>

fun read_value :: "nat \<Rightarrow> heap \<Rightarrow> hval \<Rightarrow> jsval option"
  and read_props :: "nat \<Rightarrow> heap \<Rightarrow> (string \<times> hval) list \<Rightarrow> props option"
where
  "read_value n h HUndefined = Some JUndefined"
| "read_value n h HNull = Some JNull"
| "read_value n h (HBool b) = Some (JBool b)"
| "read_value n h (HNum i) = Some (JNum i)"
| "read_value n h (HStr s) = Some (JStr s)"
| "read_value 0 h (HRef a) = None"
| "read_value (Suc n) h (HRef a) =
     (if a < length h \<and> distinct (map fst (snd (h ! a))) then
        (case read_props n h (snd (h ! a)) of
           None \<Rightarrow> None
         | Some kvs \<Rightarrow>
             (case fst (h ! a) of
                PlainObject \<Rightarrow> Some (JObj kvs)
              | ArrayObject \<Rightarrow>
                  if map fst kvs = map index_key [0..<length kvs]
                  then Some (JArr (map snd kvs)) else None))
      else None)"
| "read_props n h [] = Some []"
| "read_props n h (kv # kvs) =
     (case read_value n h (snd kv) of
        None \<Rightarrow> None
      | Some t \<Rightarrow>
          (case read_props n h kvs of
             None \<Rightarrow> None
           | Some ts \<Rightarrow> Some ((fst kv, t) # ts)))"

text \<open>
  Only the object at \<open>s\<close> differs between two heaps, and objects were added; and:
  every reference held in these properties, or in these objects, is to an address
  above \<open>s\<close>.
\<close>

definition changes_only :: "nat \<Rightarrow> heap \<Rightarrow> heap \<Rightarrow> bool" where
  "changes_only s h h' = (s < length h \<and> (\<exists>ob new. h' = take s h @ ob # drop (Suc s) h @ new))"

definition refs_above :: "nat \<Rightarrow> (string \<times> hval) list \<Rightarrow> bool" where
  "refs_above s kvs = (\<forall>k b. (k, HRef b) \<in> set kvs \<longrightarrow> s < b)"

definition closed_above :: "nat \<Rightarrow> heap \<Rightarrow> bool" where
  "closed_above s obs = (\<forall>ob \<in> set obs. refs_above s (snd ob))"

text \<open>A heap with a shared object and an array, and the value it holds at address 0.\<close>

definition example_heap :: heap where
  "example_heap =
     [(PlainObject, [(''password'', HStr ''p1''), (''nested'', HRef 1), (''tags'', HRef 2)]),
      (PlainObject, [(''token'', HStr ''t1''), (''ok'', HStr ''v'')]),
      (ArrayObject, [(''0'', HStr ''a''), (''1'', HRef 1)])]"

definition example_value :: jsval where
  "example_value =
     JObj [(''password'', JStr ''p1''),
           (''nested'', JObj [(''token'', JStr ''t1''), (''ok'', JStr ''v'')]),
           (''tags'', JArr [JStr ''a'', JObj [(''token'', JStr ''t1''), (''ok'', JStr ''v'')]])]"

section \<open>Properties of lib/tracing/tracing.service.ts\<close>

lemma after_Nil [simp]: "after [] sp = sp"
  by (cases sp) simp_all

lemma after_after [simp]: "after b (after a sp) = after (a @ b) sp"
  by (cases sp) simp_all

lemma methods_after [simp]: "methods (after cs sp) = methods sp"
  by (cases sp) simp_all

lemma invoke_ok:
  "method_of c \<in> methods sp \<Longrightarrow> invoke c (sp, tr) = (None, (after [c] sp, tr @ [c]))"
  by (cases sp) simp_all

lemma invoke_missing:
  "method_of c \<notin> methods sp \<Longrightarrow> invoke c (sp, tr) = (Some (type_error (method_of c)), (sp, tr))"
  by (cases sp) simp_all

lemma method_of_simps [simp]:
  "method_of (setAttribute k v) = M_setAttribute"
  "method_of setStatus_OK = M_setStatus"
  "method_of (setStatus_ERROR m) = M_setStatus"
  "method_of (recordException e) = M_recordException"
  "method_of end_span = M_end"
  by (simp_all add: setAttribute_def setStatus_OK_def setStatus_ERROR_def recordException_def end_span_def)

lemma typeof_object_not_null [simp]: "(typeof_object v \<and> v \<noteq> JNull) = is_object v"
  by (cases v) simp_all

lemma typeof_object_is_object [simp]: "v \<noteq> JNull \<Longrightarrow> typeof_object v = is_object v"
  by (cases v) simp_all

lemma attach_attribute_ok:
  assumes "M_setAttribute \<in> methods sp"
  shows "attach_attribute js kv (sp, tr) =
           (None, (after (merged_attribute js kv) sp, tr @ merged_attribute js kv))"
  using assms
  by (cases "js (snd kv)")
     (auto simp: attach_attribute_def merged_attribute_def Let_def skip_def try_catch_def throw_def invoke_ok)

lemma seq_attach_ok:
  assumes "M_setAttribute \<in> methods sp"
  shows "seq (map (attach_attribute js) kvs) (sp, tr) =
           (None, (after (concat (map (merged_attribute js) kvs)) sp,
                   tr @ concat (map (merged_attribute js) kvs)))"
  using assms
proof (induction kvs arbitrary: sp tr)
  case Nil
  then show ?case by simp
next
  case (Cons kv kvs)
  then show ?case by (simp add: attach_attribute_ok)
qed

lemma attach_attributes_ok:
  assumes "M_setAttribute \<in> methods sp"
  shows "attach_attributes js attrs (sp, tr) =
           (None, (after (merged_attributes js attrs) sp, tr @ merged_attributes js attrs))"
  using assms
  by (cases attrs) (simp_all add: attach_attributes_def merged_attributes_def skip_def seq_attach_ok)

lemma merged_attributes_methods:
  "c \<in> set (merged_attributes js attrs) \<Longrightarrow> method_of c = M_setAttribute"
  by (cases attrs) (auto simp: merged_attributes_def merged_attribute_def split: if_splits)

lemma seq_invoke_ok:
  "\<forall>c \<in> set cs. method_of c \<in> methods sp \<Longrightarrow>
   seq (map invoke cs) (sp, tr) = (None, (after cs sp, tr @ cs))"
proof (induction cs arbitrary: sp tr)
  case Nil
  then show ?case by simp
next
  case (Cons c cs)
  then show ?case by (simp add: invoke_ok)
qed

lemma calls_of_merged [simp]:
  "m \<noteq> M_setAttribute \<Longrightarrow> calls_of m (merged_attributes js attrs) = []"
  by (auto simp: calls_of_def filter_empty_conv dest: merged_attributes_methods)

lemma endSpan_try_ok:
  assumes req: "hasRequiredMethods sp"
    and rec: "success \<or> \<not> truthy error \<or> M_recordException \<in> methods sp"
  shows "endSpan_try js success error attrs (sp, tr) =
           (None, (after (endSpan_calls js success error attrs) sp,
                   tr @ endSpan_calls js success error attrs))"
proof -
  from req have m: "M_setAttribute \<in> methods sp" "M_setStatus \<in> methods sp" "M_end \<in> methods sp"
    by (simp_all add: hasRequiredMethods_def)
  have stack: "(if truthy (get_prop error ''stack'')
             then invoke (setAttribute ''error.stack'' (get_prop error ''stack''))
             else skip) (sp', tr') =
        (None, (after (if truthy (get_prop error ''stack'')
                       then [setAttribute ''error.stack'' (get_prop error ''stack'')] else []) sp',
                tr' @ (if truthy (get_prop error ''stack'')
                       then [setAttribute ''error.stack'' (get_prop error ''stack'')] else [])))"
    if "M_setAttribute \<in> methods sp'" for sp' tr'
    using that by (simp add: invoke_ok skip_def)
  show ?thesis
  proof (cases success)
    case True
    then show ?thesis
      using m
      by (simp add: endSpan_try_def endSpan_calls_def status_calls_def attach_attributes_ok
          invoke_ok)
  next
    case False
    show ?thesis
    proof (cases "truthy error")
      case True
      with False rec have r: "M_recordException \<in> methods sp" by simp
      show ?thesis
        using m r False True
        by (simp add: endSpan_try_def endSpan_calls_def status_calls_def attach_attributes_ok
            invoke_ok stack)
    next
      case nt: False
      then show ?thesis
        using m False
        by (simp add: endSpan_try_def endSpan_calls_def status_calls_def attach_attributes_ok
            invoke_ok)
    qed
  qed
qed

text \<open>
  What endSpan does on the spans it handles as intended. It does nothing on a
  \<open>null\<close> span and on a span that lacks setAttribute, setStatus or end. On a span
  that has these three, and recordException too when the operation failed with an
  error, it makes exactly the calls \<open>endSpan_calls\<close> and returns: first the extra
  attributes, then \<open>operation.success\<close>, then the status (OK exactly when
  \<open>success\<close>; ERROR with the error's message and the exception recorded when an
  error is given; ERROR \<open>Unknown error\<close> and no exception otherwise), then \<open>end\<close>,
  once and last. The methods of the spans considered here return when they are
  called.
\<close>

lemma endSpan_with_methods:
  "endSpan js None success error attrs tr = (None, None, tr)
   \<and> (\<not> hasRequiredMethods sp \<longrightarrow>
        endSpan js (Some sp) success error attrs tr = (None, Some sp, tr))
   \<and> (hasRequiredMethods sp \<and> (success \<or> \<not> truthy error \<or> M_recordException \<in> methods sp) \<longrightarrow>
        endSpan js (Some sp) success error attrs tr =
          (None, Some (after (endSpan_calls js success error attrs) sp),
           tr @ endSpan_calls js success error attrs)
        \<and> (\<exists>rest. endSpan_calls js success error attrs = merged_attributes js attrs @ rest
               \<and> calls_of M_setStatus (merged_attributes js attrs) = []
               \<and> calls_of M_end (merged_attributes js attrs) = [])
        \<and> calls_of M_setStatus (endSpan_calls js success error attrs) =
            [if success then setStatus_OK
             else if truthy error then setStatus_ERROR (get_prop error ''message'')
             else setStatus_ERROR (JStr ''Unknown error'')]
        \<and> calls_of M_recordException (endSpan_calls js success error attrs) =
            (if \<not> success \<and> truthy error then [recordException error] else [])
        \<and> calls_of M_end (endSpan_calls js success error attrs) = [end_span]
        \<and> last (endSpan_calls js success error attrs) = end_span)"
proof (intro conjI impI)
  show "endSpan js None success error attrs tr = (None, None, tr)"
    by (simp add: endSpan_def)
next
  assume "\<not> hasRequiredMethods sp"
  then show "endSpan js (Some sp) success error attrs tr = (None, Some sp, tr)"
    by (simp add: endSpan_def)
next
  assume h: "hasRequiredMethods sp \<and> (success \<or> \<not> truthy error \<or> M_recordException \<in> methods sp)"
  then show "endSpan js (Some sp) success error attrs tr =
          (None, Some (after (endSpan_calls js success error attrs) sp),
           tr @ endSpan_calls js success error attrs)"
    by (simp add: endSpan_def try_catch_def endSpan_try_ok)
next
  show "\<exists>rest. endSpan_calls js success error attrs = merged_attributes js attrs @ rest
               \<and> calls_of M_setStatus (merged_attributes js attrs) = []
               \<and> calls_of M_end (merged_attributes js attrs) = []"
    by (simp add: endSpan_calls_def)
next
  have "calls_of M_setStatus (endSpan_calls js success error attrs) =
          calls_of M_setStatus (merged_attributes js attrs) @ calls_of M_setStatus (status_calls success error)"
    by (simp add: endSpan_calls_def calls_of_def)
  then show "calls_of M_setStatus (endSpan_calls js success error attrs) =
            [if success then setStatus_OK
             else if truthy error then setStatus_ERROR (get_prop error ''message'')
             else setStatus_ERROR (JStr ''Unknown error'')]"
    by (simp add: status_calls_def) (simp add: calls_of_def)
next
  have "calls_of M_recordException (endSpan_calls js success error attrs) =
          calls_of M_recordException (merged_attributes js attrs) @ calls_of M_recordException (status_calls success error)"
    by (simp add: endSpan_calls_def calls_of_def)
  then show "calls_of M_recordException (endSpan_calls js success error attrs) =
            (if \<not> success \<and> truthy error then [recordException error] else [])"
    by (simp add: status_calls_def) (simp add: calls_of_def)
next
  have "calls_of M_end (endSpan_calls js success error attrs) =
          calls_of M_end (merged_attributes js attrs) @ calls_of M_end (status_calls success error) @ [end_span]"
    by (simp add: endSpan_calls_def calls_of_def)
  then show "calls_of M_end (endSpan_calls js success error attrs) = [end_span]"
    by (simp add: status_calls_def) (simp add: calls_of_def)
next
  show "last (endSpan_calls js success error attrs) = end_span"
    by (simp add: endSpan_calls_def)
qed

lemma endSpan_with_methods_example:
  "hasRequiredMethods noop_span \<and> M_recordException \<in> methods noop_span
   \<and> endSpan stringify_braces (Some noop_span) False boom
        (Some [(''http.status_code'', JNum 500), (''skipped'', JNull), (''detail'', JObj [])]) [] =
       (None, Some noop_span,
        [setAttribute ''http.status_code'' (JNum 500),
         setAttribute ''detail'' (JStr ''{}''),
         setAttribute ''operation.success'' (JBool False),
         setStatus_ERROR (JStr ''boom''),
         recordException boom,
         setAttribute ''error.type'' (JStr ''Error''),
         setAttribute ''error.message'' (JStr ''boom''),
         setAttribute ''error.stack'' (get_prop boom ''stack''),
         end_span])"
proof -
  have h: "hasRequiredMethods noop_span" "M_recordException \<in> methods noop_span"
    by (simp_all add: hasRequiredMethods_def noop_span_def)
  from endSpan_with_methods [of stringify_braces False boom
      "Some [(''http.status_code'', JNum 500), (''skipped'', JNull), (''detail'', JObj [])]" "[]" noop_span] h
  show ?thesis
    by (simp add: endSpan_calls_def merged_attributes_def merged_attribute_def status_calls_def
        boom_def error_of_def js_or_def noop_span_def stringify_braces_def)
qed

text \<open>
  Claim C3 at a concrete input. An object with setAttribute, setStatus and end, but
  without recordException, passes the check of the methods at the head of endSpan,
  which leaves out recordException although the function calls it. Ending this span
  as failed with the error \<open>boom\<close> sets \<open>operation.success\<close> and the status ERROR;
  then recordException throws, the catch block of endSpan logs the \<open>TypeError\<close>, and
  the call returns: no exception is recorded and \<open>end\<close> is never called, so the span
  is neither left alone nor ended. The same call on the stub of createSpan, which
  has the four methods, records the exception and ends the span once.
\<close>

theorem endSpan_unchecked_recordException:
  "hasRequiredMethods three_method_span
   \<and> M_recordException \<notin> methods three_method_span
   \<and> endSpan stringify_braces (Some three_method_span) False boom None [] =
       (None, Some three_method_span,
        [setAttribute ''operation.success'' (JBool False), setStatus_ERROR (JStr ''boom'')])
   \<and> calls_of M_end
        (snd (snd (endSpan stringify_braces (Some three_method_span) False boom None []))) = []
   \<and> calls_of M_recordException
        (snd (snd (endSpan stringify_braces (Some three_method_span) False boom None []))) = []
   \<and> calls_of M_recordException
        (snd (snd (endSpan stringify_braces (Some noop_span) False boom None []))) =
       [recordException boom]
   \<and> calls_of M_end
        (snd (snd (endSpan stringify_braces (Some noop_span) False boom None []))) = [end_span]"
  by (simp add: hasRequiredMethods_def three_method_span_def noop_span_def boom_def error_of_def
      endSpan_def try_catch_def endSpan_try_def attach_attributes_def skip_def throw_def
      log_caught_def type_error_def calls_of_def setAttribute_def setStatus_ERROR_def
      recordException_def end_span_def js_or_def)

lemma noop_span_methods:
  "methods noop_span = {M_setAttribute, M_setStatus, M_recordException, M_end}"
  by (simp add: noop_span_def)

lemma createSpan_cases:
  "createSpan config js k name attrs kind links =
     (if \<not> enabled config then (Inr (noop_span, []), k)
      else
        (case fault k of
           None \<Rightarrow>
             (Inr (Recording (merged_attributes js attrs), merged_attributes js attrs),
              k\<lparr>events := events k @ [StartSpan name (created_options config attrs kind links)]\<rparr>)
         | Some e \<Rightarrow>
             (case log_caught e of
                Some e' \<Rightarrow> (Inl e', k)
              | None \<Rightarrow> (Inr (noop_span, []), k))))"
  by (cases "fault k")
     (simp_all add: createSpan_def startSpan_def created_options_def attach_attributes_ok)

text \<open>
  Claim C6, as amended. With tracing disabled createSpan returns the stub and leaves
  the SDK as it was. When the SDK throws an error, it catches it and returns the
  stub as well; only when what the SDK throws is \<open>null\<close> or \<open>undefined\<close> does the
  catch block fail to read \<open>error.message\<close>, and createSpan throws that
  \<open>TypeError\<close>. Otherwise it returns the span the tracer started, with the attributes
  attached. So createSpan returns a span in every case but that one. The four
  methods the stub defines (setAttribute, setStatus, recordException, end) can be
  called on it without an exception and leave it unchanged. An attribute value that
  is an object is attached as its JSON text, or as \<open>[Object]\<close> when
  \<open>JSON.stringify\<close> throws.
\<close>

theorem createSpan_returns_span_or_stub:
  "((\<exists>s k'. createSpan config js k name attrs kind links = (Inr s, k'))
      \<longleftrightarrow> \<not> (enabled config \<and> (fault k = Some JUndefined \<or> fault k = Some JNull)))
   \<and> (\<not> enabled config \<longrightarrow>
        createSpan config js k name attrs kind links = (Inr (noop_span, []), k))
   \<and> (\<forall>e. enabled config \<and> fault k = Some e \<and> e \<noteq> JUndefined \<and> e \<noteq> JNull \<longrightarrow>
        createSpan config js k name attrs kind links = (Inr (noop_span, []), k))
   \<and> (\<forall>e. enabled config \<and> fault k = Some e \<and> (e = JUndefined \<or> e = JNull) \<longrightarrow>
        createSpan config js k name attrs kind links = (Inl cannot_read, k))
   \<and> (enabled config \<and> fault k = None \<longrightarrow>
        createSpan config js k name attrs kind links =
          (Inr (Recording (merged_attributes js attrs), merged_attributes js attrs),
           k\<lparr>events := events k @ [StartSpan name (created_options config attrs kind links)]\<rparr>))
   \<and> (\<forall>c tr. method_of c \<in> {M_setAttribute, M_setStatus, M_recordException, M_end} \<longrightarrow>
        invoke c (noop_span, tr) = (None, (noop_span, tr @ [c])))
   \<and> (\<forall>key v. is_object v \<longrightarrow>
        merged_attribute js (key, v) =
          [setAttribute key (case js v of Inr text \<Rightarrow> JStr text | Inl e \<Rightarrow> JStr ''[Object]'')])"
proof (intro conjI impI allI)
  show "(\<exists>s k'. createSpan config js k name attrs kind links = (Inr s, k'))
      \<longleftrightarrow> \<not> (enabled config \<and> (fault k = Some JUndefined \<or> fault k = Some JNull))"
    by (cases "fault k") (auto simp: createSpan_cases log_caught_def)
next
  assume "\<not> enabled config"
  then show "createSpan config js k name attrs kind links = (Inr (noop_span, []), k)"
    by (simp add: createSpan_cases)
next
  fix e
  assume "enabled config \<and> fault k = Some e \<and> e \<noteq> JUndefined \<and> e \<noteq> JNull"
  then show "createSpan config js k name attrs kind links = (Inr (noop_span, []), k)"
    by (simp add: createSpan_cases log_caught_def)
next
  fix e
  assume "enabled config \<and> fault k = Some e \<and> (e = JUndefined \<or> e = JNull)"
  then show "createSpan config js k name attrs kind links = (Inl cannot_read, k)"
    by (auto simp: createSpan_cases log_caught_def)
next
  assume "enabled config \<and> fault k = None"
  then show "createSpan config js k name attrs kind links =
          (Inr (Recording (merged_attributes js attrs), merged_attributes js attrs),
           k\<lparr>events := events k @ [StartSpan name (created_options config attrs kind links)]\<rparr>)"
    by (simp add: createSpan_cases)
next
  fix c tr
  assume "method_of c \<in> {M_setAttribute, M_setStatus, M_recordException, M_end}"
  then show "invoke c (noop_span, tr) = (None, (noop_span, tr @ [c]))"
    by (simp add: noop_span_def)
next
  fix key v
  assume "is_object v"
  then show "merged_attribute js (key, v) =
          [setAttribute key (case js v of Inr text \<Rightarrow> JStr text | Inl e \<Rightarrow> JStr ''[Object]'')]"
    by (cases v) (simp_all add: merged_attribute_def)
qed

text \<open>
  The claim as stated fails: the stub defines four methods, not the whole Span
  interface; \<open>addEvent\<close> on the span returned with tracing disabled throws.
\<close>

theorem createSpan_stub_lacks_addEvent:
  "createSpan cfg_off stringify_braces sdk_idle ''op'' None JUndefined JUndefined
     = (Inr (noop_span, []), sdk_idle)
   \<and> invoke (Call M_addEvent [JStr ''started'']) (noop_span, [])
     = (Some (type_error M_addEvent), (noop_span, []))"
  by (simp add: createSpan_def cfg_off_def noop_span_def)

theorem createSpan_returns_span_or_stub_witness:
  "enabled cfg_on \<and> fault sdk_idle = None \<and> \<not> enabled cfg_off
   \<and> fault (sdk_failing boom) = Some boom \<and> boom \<noteq> JUndefined \<and> boom \<noteq> JNull
   \<and> fault (sdk_failing JUndefined) = Some JUndefined
   \<and> createSpan cfg_on stringify_throws sdk_idle ''op''
        (Some [(''user'', JObj [(''id'', JNum 7)]), (''n'', JNum 1)]) JUndefined JUndefined =
       (Inr (Recording [setAttribute ''user'' (JStr ''[Object]''), setAttribute ''n'' (JNum 1)],
             [setAttribute ''user'' (JStr ''[Object]''), setAttribute ''n'' (JNum 1)]),
        \<lparr>fault = None,
         events = [StartSpan ''op''
           \<lparr>so_kind = JUndefined, so_links = JUndefined,
            so_attributes = [(''service.name'', JStr ''svc''), (''service.version'', JStr ''1.0.0''),
                             (''environment'', JStr ''test''),
                             (''user'', JObj [(''id'', JNum 7)]), (''n'', JNum 1)]\<rparr>]\<rparr>)
   \<and> createSpan cfg_off stringify_throws sdk_idle ''op'' None JUndefined JUndefined =
       (Inr (noop_span, []), sdk_idle)
   \<and> createSpan cfg_on stringify_throws (sdk_failing boom) ''op'' None JUndefined JUndefined =
       (Inr (noop_span, []), sdk_failing boom)
   \<and> createSpan cfg_on stringify_throws (sdk_failing JUndefined) ''op'' None JUndefined JUndefined =
       (Inl cannot_read, sdk_failing JUndefined)
   \<and> invoke end_span (noop_span, []) = (None, (noop_span, [end_span]))"
proof -
  have h: "enabled cfg_on \<and> fault sdk_idle = None" "\<not> enabled cfg_off"
    "method_of end_span \<in> {M_setAttribute, M_setStatus, M_recordException, M_end}"
    "enabled cfg_on \<and> fault (sdk_failing boom) = Some boom \<and> boom \<noteq> JUndefined \<and> boom \<noteq> JNull"
    "enabled cfg_on \<and> fault (sdk_failing JUndefined) = Some JUndefined
       \<and> (JUndefined = JUndefined \<or> JUndefined = JNull)"
    by (simp_all add: cfg_on_def cfg_off_def sdk_idle_def sdk_failing_def boom_def error_of_def)
  from createSpan_returns_span_or_stub [of cfg_on stringify_throws sdk_idle "''op''"
      "Some [(''user'', JObj [(''id'', JNum 7)]), (''n'', JNum 1)]" JUndefined JUndefined] h(1)
  have a: "createSpan cfg_on stringify_throws sdk_idle ''op''
        (Some [(''user'', JObj [(''id'', JNum 7)]), (''n'', JNum 1)]) JUndefined JUndefined =
          (Inr (Recording (merged_attributes stringify_throws (Some [(''user'', JObj [(''id'', JNum 7)]), (''n'', JNum 1)])),
                merged_attributes stringify_throws (Some [(''user'', JObj [(''id'', JNum 7)]), (''n'', JNum 1)])),
           sdk_idle\<lparr>events := events sdk_idle @ [StartSpan ''op'' (created_options cfg_on (Some [(''user'', JObj [(''id'', JNum 7)]), (''n'', JNum 1)]) JUndefined JUndefined)]\<rparr>)"
    by blast
  from createSpan_returns_span_or_stub [of cfg_off stringify_throws sdk_idle "''op''" None JUndefined JUndefined] h(2) h(3)
  have b: "createSpan cfg_off stringify_throws sdk_idle ''op'' None JUndefined JUndefined =
       (Inr (noop_span, []), sdk_idle)"
    and c: "invoke end_span (noop_span, []) = (None, (noop_span, [] @ [end_span]))"
    by blast+
  from createSpan_returns_span_or_stub [of cfg_on stringify_throws "sdk_failing boom" "''op''" None JUndefined JUndefined] h(4)
  have d: "createSpan cfg_on stringify_throws (sdk_failing boom) ''op'' None JUndefined JUndefined =
       (Inr (noop_span, []), sdk_failing boom)"
    by blast
  from createSpan_returns_span_or_stub [of cfg_on stringify_throws "sdk_failing JUndefined" "''op''" None JUndefined JUndefined] h(5)
  have e: "createSpan cfg_on stringify_throws (sdk_failing JUndefined) ''op'' None JUndefined JUndefined =
       (Inl cannot_read, sdk_failing JUndefined)"
    by blast
  show ?thesis
    using a b c d e h
    by (simp add: merged_attributes_def merged_attribute_def stringify_throws_def
        created_options_def spread_def cfg_on_def sdk_idle_def)
qed

lemma seq_invoke_frame:
  "seq (map invoke cs) (sp, tr) = (r, (sp', tr')) \<Longrightarrow>
   \<exists>ran rest. cs = ran @ rest \<and> sp' = after ran sp \<and> tr' = tr @ ran
     \<and> (case r of None \<Rightarrow> rest = [] | Some e \<Rightarrow> rest \<noteq> [] \<and> e = type_error (method_of (hd rest)))"
proof (induction cs arbitrary: sp tr)
  case Nil
  then show ?case by simp
next
  case (Cons c cs)
  show ?case
  proof (cases "method_of c \<in> methods sp")
    case True
    with Cons.prems have "seq (map invoke cs) (after [c] sp, tr @ [c]) = (r, (sp', tr'))"
      by (simp add: invoke_ok)
    from Cons.IH [OF this] obtain ran' rest where
      d: "cs = ran' @ rest" "sp' = after ran' (after [c] sp)" "tr' = (tr @ [c]) @ ran'"
         "(case r of None \<Rightarrow> rest = [] | Some e \<Rightarrow> rest \<noteq> [] \<and> e = type_error (method_of (hd rest)))"
      by blast
    have "c # cs = (c # ran') @ rest \<and> sp' = after (c # ran') sp \<and> tr' = tr @ (c # ran')
       \<and> (case r of None \<Rightarrow> rest = [] | Some e \<Rightarrow> rest \<noteq> [] \<and> e = type_error (method_of (hd rest)))"
      using d by simp
    then show ?thesis by blast
  next
    case False
    with Cons.prems have "r = Some (type_error (method_of c))" "sp' = sp" "tr' = tr"
      by (simp_all add: invoke_missing)
    then have "c # cs = [] @ (c # cs) \<and> sp' = after [] sp \<and> tr' = tr @ []
       \<and> (case r of None \<Rightarrow> c # cs = [] | Some e \<Rightarrow> c # cs \<noteq> [] \<and> e = type_error (method_of (hd (c # cs))))"
      by simp
    then show ?thesis by blast
  qed
qed

lemma call_fn_frame:
  assumes "call_fn fn (sp, tr) = (out, s1)"
  shows "\<exists>ran rest. made (fn sp) = ran @ rest \<and> s1 = (after ran sp, tr @ ran)
     \<and> (if rest = [] then out = await (completion (fn sp))
         else out = Inl (type_error (method_of (hd rest))))"
proof -
  obtain r sp' tr' where q: "seq (map invoke (made (fn sp))) (sp, tr) = (r, (sp', tr'))"
    by (metis prod.exhaust)
  from seq_invoke_frame [OF q] obtain ran rest where
    d: "made (fn sp) = ran @ rest" "sp' = after ran sp" "tr' = tr @ ran"
       "(case r of None \<Rightarrow> rest = [] | Some e \<Rightarrow> rest \<noteq> [] \<and> e = type_error (method_of (hd rest)))"
    by blast
  from assms q d have "s1 = (after ran sp, tr @ ran)
     \<and> (if rest = [] then out = await (completion (fn sp))
         else out = Inl (type_error (method_of (hd rest))))"
    by (cases r) (auto simp: call_fn_def)
  with d(1) show ?thesis by blast
qed

lemma calls_of_Nil [simp]: "calls_of m [] = []"
  by (simp add: calls_of_def)

lemma createSpan_span:
  assumes "createSpan config js k name attrs kind links = (Inr s0, k0)"
  shows "hasRequiredMethods (fst s0)" "M_recordException \<in> methods (fst s0)"
    "calls_of M_end (snd s0) = []"
  using assms
  by (auto simp: createSpan_cases hasRequiredMethods_def noop_span_def
      split: if_splits option.splits)

lemma endSpan_created:
  assumes "hasRequiredMethods sp" "M_recordException \<in> methods sp"
  shows "endSpan js (Some (after cs sp)) success error attrs tr =
           (None, Some (after (cs @ endSpan_calls js success error attrs) sp),
            tr @ endSpan_calls js success error attrs)"
proof -
  from assms have "hasRequiredMethods (after cs sp)" "M_recordException \<in> methods (after cs sp)"
    by (simp_all add: hasRequiredMethods_def)
  then show ?thesis
    by (simp add: endSpan_def try_catch_def endSpan_try_ok)
qed

lemma calls_of_end_endSpan_calls:
  "calls_of M_end (endSpan_calls js success error attrs) = [end_span]"
proof -
  have "calls_of M_end (endSpan_calls js success error attrs) =
          calls_of M_end (merged_attributes js attrs) @ calls_of M_end (status_calls success error) @ [end_span]"
    by (simp add: endSpan_calls_def calls_of_def)
  then show ?thesis
    by (simp add: status_calls_def) (simp add: calls_of_def)
qed

lemma calls_of_append: "calls_of m (a @ b) = calls_of m a @ calls_of m b"
  by (simp add: calls_of_def)

text \<open>
  Claim C1, as amended. createSpan is called before the \<open>try\<close> of trace: when it
  throws, the promise rejects with what it threw and no function is run. When it
  returns a span, trace runs the function on it and then makes exactly the calls
  of one endSpan on that span, whether the function returned, threw, resolved or
  rejected, whether one of its calls on the span threw, and whether the result
  extractor threw. The invocations on the span are then those of createSpan (no
  \<open>end\<close> among them), those the function made itself, and \<open>endSpan_calls\<close>, which
  hold \<open>end\<close> exactly once: the span is ended once by trace, after the function,
  and as often again as the function ends it itself; exactly once when the function
  does not call \<open>end\<close>. When the function fails with \<open>e\<close> the promise rejects with
  \<open>e\<close> itself, which is also the error put on the span.
\<close>

theorem trace_ends_span_once:
  "(\<forall>e k0.
      createSpan config js k name (opt o_attributes None options)
        (opt o_kind JUndefined options) (opt o_links JUndefined options) = (Inl e, k0) \<longrightarrow>
      trace config js k name fn options = (Inl e, (None, []), k0))
   \<and> (\<forall>s0 k0.
      createSpan config js k name (opt o_attributes None options)
        (opt o_kind JUndefined options) (opt o_links JUndefined options) = (Inr s0, k0) \<longrightarrow>
      (\<exists>fn_calls rest out success error attrs r tr.
          made (fn (fst s0)) = fn_calls @ rest
        \<and> call_fn fn s0 = (out, (after fn_calls (fst s0), snd s0 @ fn_calls))
        \<and> (if rest = [] then out = await (completion (fn (fst s0)))
            else out = Inl (type_error (method_of (hd rest))))
        \<and> tr = snd s0 @ fn_calls @ endSpan_calls js success error attrs
        \<and> trace config js k name fn options =
            (r, (Some (after (fn_calls @ endSpan_calls js success error attrs) (fst s0)), tr), k0)
        \<and> calls_of M_end (snd s0) = []
        \<and> calls_of M_end (endSpan_calls js success error attrs) = [end_span]
        \<and> calls_of M_end tr = calls_of M_end fn_calls @ [end_span]
        \<and> (calls_of M_end (made (fn (fst s0))) = [] \<longrightarrow> calls_of M_end tr = [end_span])
        \<and> (case out of
              Inl e \<Rightarrow> r = Inl e \<and> \<not> success \<and> error = e \<and> attrs = None
            | Inr v \<Rightarrow>
                (case opt resultAttributes None options of
                   None \<Rightarrow> r = Inr v \<and> success \<and> attrs = None
                 | Some extract \<Rightarrow>
                     (case extract v of
                        Inr kvs \<Rightarrow> r = Inr v \<and> success \<and> attrs = Some kvs
                      | Inl e \<Rightarrow> r = Inl e \<and> \<not> success \<and> error = e \<and> attrs = None)))))"
proof (intro conjI allI impI)
  fix e k0
  assume "createSpan config js k name (opt o_attributes None options)
        (opt o_kind JUndefined options) (opt o_links JUndefined options) = (Inl e, k0)"
  then show "trace config js k name fn options = (Inl e, (None, []), k0)"
    by (simp add: trace_def)
next
  fix s0 k0
  assume c: "createSpan config js k name (opt o_attributes None options)
        (opt o_kind JUndefined options) (opt o_links JUndefined options) = (Inr s0, k0)"
  note m = createSpan_span [OF c]
  obtain sp0 tr0 where s0: "s0 = (sp0, tr0)"
    by (cases s0)
  obtain out s1 where f: "call_fn fn (sp0, tr0) = (out, s1)"
    by (cases "call_fn fn (sp0, tr0)")
  from call_fn_frame [OF f] obtain fn_calls rest where
    d: "made (fn sp0) = fn_calls @ rest" "s1 = (after fn_calls sp0, tr0 @ fn_calls)"
       "(if rest = [] then out = await (completion (fn sp0))
         else out = Inl (type_error (method_of (hd rest))))"
    by blast
  from m s0 have m': "hasRequiredMethods sp0" "M_recordException \<in> methods sp0"
    "calls_of M_end tr0 = []"
    by simp_all
  note es = endSpan_created [OF m'(1) m'(2)]
  have t: "\<exists>success error attrs r.
      trace config js k name fn options =
        (r, (Some (after (fn_calls @ endSpan_calls js success error attrs) sp0),
             tr0 @ fn_calls @ endSpan_calls js success error attrs), k0)
    \<and> (case out of
          Inl e \<Rightarrow> r = Inl e \<and> \<not> success \<and> error = e \<and> attrs = None
        | Inr v \<Rightarrow>
            (case opt resultAttributes None options of
               None \<Rightarrow> r = Inr v \<and> success \<and> attrs = None
             | Some extract \<Rightarrow>
                 (case extract v of
                    Inr kvs \<Rightarrow> r = Inr v \<and> success \<and> attrs = Some kvs
                  | Inl e \<Rightarrow> r = Inl e \<and> \<not> success \<and> error = e \<and> attrs = None)))"
  proof (cases out)
    case (Inl e)
    have "trace config js k name fn options =
        (Inl e, (Some (after (fn_calls @ endSpan_calls js False e None) sp0),
                 tr0 @ fn_calls @ endSpan_calls js False e None), k0)"
      using c s0 f d(2) Inl by (simp add: trace_def trace_catch_def es)
    with Inl show ?thesis by auto
  next
    case (Inr v)
    show ?thesis
    proof (cases "opt resultAttributes None options")
      case None
      have "trace config js k name fn options =
          (Inr v, (Some (after (fn_calls @ endSpan_calls js True JUndefined None) sp0),
                   tr0 @ fn_calls @ endSpan_calls js True JUndefined None), k0)"
        using c s0 f d(2) Inr None by (simp add: trace_def es)
      with Inr None show ?thesis by auto
    next
      case (Some extr)
      show ?thesis
      proof (cases "extr v")
        case (Inl e)
        have "trace config js k name fn options =
            (Inl e, (Some (after (fn_calls @ endSpan_calls js False e None) sp0),
                     tr0 @ fn_calls @ endSpan_calls js False e None), k0)"
          using c s0 f d(2) Inr Some Inl by (simp add: trace_def trace_catch_def es)
        with Inr Some Inl show ?thesis by auto
      next
        case inr: (Inr kvs)
        have "trace config js k name fn options =
            (Inr v, (Some (after (fn_calls @ endSpan_calls js True JUndefined (Some kvs)) sp0),
                     tr0 @ fn_calls @ endSpan_calls js True JUndefined (Some kvs)), k0)"
          using c s0 f d(2) Inr Some inr by (simp add: trace_def es)
        with Inr Some inr show ?thesis by auto
      qed
    qed
  qed
  then obtain success error attrs r where
    e: "trace config js k name fn options =
        (r, (Some (after (fn_calls @ endSpan_calls js success error attrs) sp0),
             tr0 @ fn_calls @ endSpan_calls js success error attrs), k0)"
       "(case out of
          Inl e \<Rightarrow> r = Inl e \<and> \<not> success \<and> error = e \<and> attrs = None
        | Inr v \<Rightarrow>
            (case opt resultAttributes None options of
               None \<Rightarrow> r = Inr v \<and> success \<and> attrs = None
             | Some extract \<Rightarrow>
                 (case extract v of
                    Inr kvs \<Rightarrow> r = Inr v \<and> success \<and> attrs = Some kvs
                  | Inl e \<Rightarrow> r = Inl e \<and> \<not> success \<and> error = e \<and> attrs = None)))"
    by blast
  let ?tr = "tr0 @ fn_calls @ endSpan_calls js success error attrs"
  have n: "calls_of M_end ?tr = calls_of M_end fn_calls @ [end_span]"
    by (simp add: calls_of_append m'(3) calls_of_end_endSpan_calls)
  have o: "calls_of M_end (made (fn sp0)) = [] \<longrightarrow> calls_of M_end ?tr = [end_span]"
    by (simp add: d(1) calls_of_append m'(3) calls_of_end_endSpan_calls)
  have "made (fn (fst s0)) = fn_calls @ rest
        \<and> call_fn fn s0 = (out, (after fn_calls (fst s0), snd s0 @ fn_calls))
        \<and> (if rest = [] then out = await (completion (fn (fst s0)))
            else out = Inl (type_error (method_of (hd rest))))
        \<and> ?tr = snd s0 @ fn_calls @ endSpan_calls js success error attrs
        \<and> trace config js k name fn options =
            (r, (Some (after (fn_calls @ endSpan_calls js success error attrs) (fst s0)), ?tr), k0)
        \<and> calls_of M_end (snd s0) = []
        \<and> calls_of M_end (endSpan_calls js success error attrs) = [end_span]
        \<and> calls_of M_end ?tr = calls_of M_end fn_calls @ [end_span]
        \<and> (calls_of M_end (made (fn (fst s0))) = [] \<longrightarrow> calls_of M_end ?tr = [end_span])
        \<and> (case out of
              Inl e \<Rightarrow> r = Inl e \<and> \<not> success \<and> error = e \<and> attrs = None
            | Inr v \<Rightarrow>
                (case opt resultAttributes None options of
                   None \<Rightarrow> r = Inr v \<and> success \<and> attrs = None
                 | Some extract \<Rightarrow>
                     (case extract v of
                        Inr kvs \<Rightarrow> r = Inr v \<and> success \<and> attrs = Some kvs
                      | Inl e \<Rightarrow> r = Inl e \<and> \<not> success \<and> error = e \<and> attrs = None)))"
    using s0 d f e n o m'(3) calls_of_end_endSpan_calls [of js success error attrs]
    by simp
  then show "\<exists>fn_calls rest out success error attrs r tr.
          made (fn (fst s0)) = fn_calls @ rest
        \<and> call_fn fn s0 = (out, (after fn_calls (fst s0), snd s0 @ fn_calls))
        \<and> (if rest = [] then out = await (completion (fn (fst s0)))
            else out = Inl (type_error (method_of (hd rest))))
        \<and> tr = snd s0 @ fn_calls @ endSpan_calls js success error attrs
        \<and> trace config js k name fn options =
            (r, (Some (after (fn_calls @ endSpan_calls js success error attrs) (fst s0)), tr), k0)
        \<and> calls_of M_end (snd s0) = []
        \<and> calls_of M_end (endSpan_calls js success error attrs) = [end_span]
        \<and> calls_of M_end tr = calls_of M_end fn_calls @ [end_span]
        \<and> (calls_of M_end (made (fn (fst s0))) = [] \<longrightarrow> calls_of M_end tr = [end_span])
        \<and> (case out of
              Inl e \<Rightarrow> r = Inl e \<and> \<not> success \<and> error = e \<and> attrs = None
            | Inr v \<Rightarrow>
                (case opt resultAttributes None options of
                   None \<Rightarrow> r = Inr v \<and> success \<and> attrs = None
                 | Some extract \<Rightarrow>
                     (case extract v of
                        Inr kvs \<Rightarrow> r = Inr v \<and> success \<and> attrs = Some kvs
                      | Inl e \<Rightarrow> r = Inl e \<and> \<not> success \<and> error = e \<and> attrs = None)))"
    by blast
qed

text \<open>
  The claim as stated fails for a function that ends the span itself: trace ends it
  again, and the span the tracer started gets \<open>end\<close> twice.
\<close>

theorem trace_fn_ends_span_too:
  "trace cfg_on stringify_braces sdk_idle ''db.query'' ending_fn None =
     (Inr 42,
      (Some (Recording
         [setAttribute ''db.rows'' (JNum 3), end_span,
          setAttribute ''operation.success'' (JBool True), setStatus_OK, end_span]),
       [setAttribute ''db.rows'' (JNum 3), end_span,
        setAttribute ''operation.success'' (JBool True), setStatus_OK, end_span]),
      sdk_idle\<lparr>events :=
        [StartSpan ''db.query'' (created_options cfg_on None JUndefined JUndefined)]\<rparr>)
   \<and> calls_of M_end
       (snd (fst (snd (trace cfg_on stringify_braces sdk_idle ''db.query'' ending_fn None))))
     = [end_span, end_span]"
  by (simp add: trace_def createSpan_def startSpan_def cfg_on_def sdk_idle_def opt_def
      created_options_def attach_attributes_def skip_def call_fn_def ending_fn_def
      setAttribute_def end_span_def endSpan_def hasRequiredMethods_def try_catch_def
      endSpan_try_def setStatus_OK_def calls_of_def)

theorem trace_ends_span_once_witness:
  "createSpan cfg_off stringify_braces sdk_idle ''db.query'' None JUndefined JUndefined =
     (Inr (noop_span, []), sdk_idle)
   \<and> calls_of M_end (made (rejecting_fn noop_span)) = []
   \<and> trace cfg_off stringify_braces sdk_idle ''db.query'' rejecting_fn None =
     (Inl boom,
      (Some noop_span,
       [setAttribute ''db.rows'' (JNum 3),
        setAttribute ''operation.success'' (JBool False),
        setStatus_ERROR (JStr ''boom''),
        recordException boom,
        setAttribute ''error.type'' (JStr ''Error''),
        setAttribute ''error.message'' (JStr ''boom''),
        setAttribute ''error.stack'' (get_prop boom ''stack''),
        end_span]),
      sdk_idle)
   \<and> calls_of M_end
        [setAttribute ''db.rows'' (JNum 3),
         setAttribute ''operation.success'' (JBool False),
         setStatus_ERROR (JStr ''boom''),
         recordException boom,
         setAttribute ''error.type'' (JStr ''Error''),
         setAttribute ''error.message'' (JStr ''boom''),
         setAttribute ''error.stack'' (get_prop boom ''stack''),
         end_span] = [end_span]
   \<and> createSpan cfg_on stringify_braces (sdk_failing JNull) ''db.query'' None JUndefined JUndefined =
     (Inl cannot_read, sdk_failing JNull)
   \<and> trace cfg_on stringify_braces (sdk_failing JNull) ''db.query'' rejecting_fn None =
     (Inl cannot_read, (None, []), sdk_failing JNull)"
proof -
  let ?calls = "[setAttribute ''db.rows'' (JNum 3),
        setAttribute ''operation.success'' (JBool False),
        setStatus_ERROR (JStr ''boom''),
        recordException boom,
        setAttribute ''error.type'' (JStr ''Error''),
        setAttribute ''error.message'' (JStr ''boom''),
        setAttribute ''error.stack'' (get_prop boom ''stack''),
        end_span]"
  have c: "createSpan cfg_off stringify_braces sdk_idle ''db.query'' (opt o_attributes None None)
        (opt o_kind JUndefined None) (opt o_links JUndefined None) = (Inr (noop_span, []), sdk_idle)"
    by (simp add: createSpan_def cfg_off_def opt_def)
  have q: "calls_of M_end (made (rejecting_fn (fst (noop_span, [])))) = []"
    by (simp add: rejecting_fn_def calls_of_def setAttribute_def)
  have run: "trace cfg_off stringify_braces sdk_idle ''db.query'' rejecting_fn None =
     (Inl boom, (Some noop_span, ?calls), sdk_idle)"
    by (simp add: trace_def trace_catch_def createSpan_def cfg_off_def opt_def call_fn_def
        rejecting_fn_def noop_span_def setAttribute_def endSpan_def hasRequiredMethods_def
        try_catch_def endSpan_try_def attach_attributes_def skip_def boom_def error_of_def
        setStatus_ERROR_def recordException_def js_or_def end_span_def)
  from trace_ends_span_once [of cfg_off stringify_braces sdk_idle "''db.query''" None rejecting_fn] c q
  obtain r sp tr where
    "trace cfg_off stringify_braces sdk_idle ''db.query'' rejecting_fn None = (r, (sp, tr), sdk_idle)"
    "calls_of M_end tr = [end_span]"
    by blast
  with run have once: "calls_of M_end ?calls = [end_span]"
    by simp
  have c': "createSpan cfg_on stringify_braces (sdk_failing JNull) ''db.query''
        (opt o_attributes None None) (opt o_kind JUndefined None) (opt o_links JUndefined None) =
          (Inl cannot_read, sdk_failing JNull)"
    by (simp add: createSpan_def startSpan_def cfg_on_def sdk_failing_def opt_def log_caught_def)
  from trace_ends_span_once [of cfg_on stringify_braces "sdk_failing JNull" "''db.query''" None rejecting_fn] c'
  have thrown: "trace cfg_on stringify_braces (sdk_failing JNull) ''db.query'' rejecting_fn None =
     (Inl cannot_read, (None, []), sdk_failing JNull)"
    by blast
  show ?thesis
    using c c' q run once thrown by (simp add: opt_def)
qed

text \<open>
  Claim C2 at a concrete input. With tracing disabled, traceWithActiveSpan hands the
  function an object without any method: a function that sets an attribute and would
  resolve with 42 rejects with a \<open>TypeError\<close> instead, while the same function runs
  to its result on the stub createSpan returns.
\<close>

theorem traceWithActiveSpan_disabled_span_is_empty:
  "traceWithActiveSpan cfg_off sdk_idle ''db.query'' resolving_fn None =
     (Inl (type_error M_setAttribute), Some (Stub {}, []), sdk_idle)
   \<and> call_fn resolving_fn (noop_span, []) =
     (Inr 42, (noop_span, [setAttribute ''db.rows'' (JNum 3)]))"
  by (simp add: traceWithActiveSpan_def cfg_off_def call_fn_def resolving_fn_def setAttribute_def
      noop_span_def)

section \<open>Properties of the metrics service\<close>

text \<open>
  Claim C8, as amended. While the service is not initialized (metrics disabled, set-up
  failed, or onModuleInit not yet run) getCounter and getUpDownCounter return a new
  object whose \<open>add\<close> does nothing, getHistogram one whose \<open>record\<close> does nothing,
  and getObservableGauge drops the callback it is given and returns a new empty
  object; each returns a handle (never \<open>undefined\<close>), registers nothing and never
  throws. initialize leaves a disabled service uninitialized.
\<close>

theorem uninitialized_accessors_are_noops:
  assumes off: "\<not> initialized s"
  shows "getCounter n opts s = (Some (length (objects s)), s\<lparr>objects := objects s @ [Literal [''add'']]\<rparr>)
    \<and> call_on (fst (getCounter n opts s)) (Add v a) (snd (getCounter n opts s))
        = (None, snd (getCounter n opts s))
    \<and> getHistogram n opts s = (Some (length (objects s)), s\<lparr>objects := objects s @ [Literal [''record'']]\<rparr>)
    \<and> call_on (fst (getHistogram n opts s)) (Record v a) (snd (getHistogram n opts s))
        = (None, snd (getHistogram n opts s))
    \<and> getUpDownCounter n opts s = (Some (length (objects s)), s\<lparr>objects := objects s @ [Literal [''add'']]\<rparr>)
    \<and> call_on (fst (getUpDownCounter n opts s)) (Add v a) (snd (getUpDownCounter n opts s))
        = (None, snd (getUpDownCounter n opts s))
    \<and> getObservableGauge n cb opts s = (Some (length (objects s)), s\<lparr>objects := objects s @ [Literal []]\<rparr>)
    \<and> initialize setup_ok (s\<lparr>metricsEnabled := False\<rparr>) = s\<lparr>metricsEnabled := False\<rparr>
    \<and> initialize False s = s"
  using off
  by (simp add: getCounter_def getHistogram_def getUpDownCounter_def getObservableGauge_def
      new_literal_def call_on_def initialize_def)

text \<open>
  The claim as stated fails for the gauge: the object returned for it is \<open>{}\<close>, so
  registering a callback on the returned handle throws.
\<close>

theorem uninitialized_gauge_has_no_addCallback:
  "getObservableGauge ''queue.depth'' (\<lambda>u. 3) None (new_service False None)
     = (Some 0, (new_service False None)\<lparr>objects := [Literal []]\<rparr>)
   \<and> call_on (Some 0) (AddCallback (\<lambda>u. 4)) ((new_service False None)\<lparr>objects := [Literal []]\<rparr>)
     = (Some (not_a_function ''addCallback''), (new_service False None)\<lparr>objects := [Literal []]\<rparr>)"
  by (simp add: getObservableGauge_def new_literal_def new_service_def call_on_def)

theorem uninitialized_accessors_are_noops_witness:
  "\<not> initialized (new_service False None)
   \<and> getCounter ''jobs'' None (new_service False None)
       = (Some 0, (new_service False None)\<lparr>objects := [Literal [''add'']]\<rparr>)
   \<and> call_on (Some 0) (Add 1 []) ((new_service False None)\<lparr>objects := [Literal [''add'']]\<rparr>)
       = (None, (new_service False None)\<lparr>objects := [Literal [''add'']]\<rparr>)"
proof -
  have h: "\<not> initialized (new_service False None)"
    by (simp add: new_service_def)
  from uninitialized_accessors_are_noops [OF h, of "''jobs''" None 1 "[]"]
  have "getCounter ''jobs'' None (new_service False None)
       = (Some (length (objects (new_service False None))),
          (new_service False None)\<lparr>objects := objects (new_service False None) @ [Literal [''add'']]\<rparr>)"
    and "call_on (fst (getCounter ''jobs'' None (new_service False None))) (Add 1 [])
           (snd (getCounter ''jobs'' None (new_service False None)))
       = (None, snd (getCounter ''jobs'' None (new_service False None)))"
    by blast+
  then show ?thesis
    using h by (simp add: new_service_def)
qed

lemma getMetricKey_prefix: "prefix s = prefix s' \<Longrightarrow> getMetricKey s n = getMetricKey s' n"
  by (simp add: getMetricKey_def)

lemma recordGaugeMetric_hit:
  "initialized s \<Longrightarrow> observableGauges s (getMetricKey s n) = Some h \<Longrightarrow>
   recordGaugeMetric n v a s = s"
  by (simp add: recordGaugeMetric_def getObservableGauge_def Let_def)

lemma recordGaugeMetric_keeps:
  assumes "gauge_registered s0 key h g s"
  shows "gauge_registered s0 key h g (recordGaugeMetric n v a s)"
proof (cases "observableGauges s (getMetricKey s n)")
  case (Some h')
  with assms show ?thesis
    by (simp add: recordGaugeMetric_hit gauge_registered_def)
next
  case None
  with assms have ne: "getMetricKey s n \<noteq> key"
    by (auto simp: gauge_registered_def)
  from assms None ne show ?thesis
    by (simp add: gauge_registered_def recordGaugeMetric_def getObservableGauge_def Let_def
        createInstrument_def addCallback_def nth_append)
qed

lemma record_all_keeps:
  "gauge_registered s0 key h g s \<Longrightarrow> gauge_registered s0 key h g (record_all later s)"
  unfolding record_all_def
proof (induction later arbitrary: s)
  case Nil
  then show ?case by simp
next
  case (Cons c later)
  then show ?case by (simp add: recordGaugeMetric_keeps)
qed

lemma recordGaugeMetric_first:
  assumes "initialized s" "observableGauges s (getMetricKey s n) = None"
  shows "gauge_registered s (getMetricKey s n) (length (objects s))
           (Instrument \<lparr>i_kind = KObservableGauge, i_name = getMetricKey s n,
                        i_description = ''Gauge for '' @ n, i_unit = ''1'',
                        i_values = [], i_callbacks = [\<lambda>u. v]\<rparr>)
           (recordGaugeMetric n v a s)"
  using assms
  by (simp add: gauge_registered_def recordGaugeMetric_def getObservableGauge_def Let_def
      createInstrument_def addCallback_def opt_def or_default_def)

text \<open>
  Claim C9. Once a first recordGaugeMetric(n, v1) has registered the gauge (the
  service is initialized and no gauge was under that key), the gauge reports v1; a
  second call recordGaugeMetric(n, v2) returns the very same service state; and
  after any sequence of later recordGaugeMetric calls, for any names and values, the
  gauge is the same object under the same key, still reports v1 only, and a further
  call for n changes nothing.
\<close>

theorem recordGaugeMetric_first_value_stays:
  assumes init: "initialized s"
    and new: "observableGauges s (getMetricKey s n) = None"
  shows "observableGauges (recordGaugeMetric n v1 a1 s) (getMetricKey s n) = Some (length (objects s))
    \<and> observe (recordGaugeMetric n v1 a1 s) (length (objects s)) = [v1]
    \<and> recordGaugeMetric n v2 a2 (recordGaugeMetric n v1 a1 s) = recordGaugeMetric n v1 a1 s
    \<and> observableGauges (record_all later (recordGaugeMetric n v1 a1 s)) (getMetricKey s n)
        = Some (length (objects s))
    \<and> objects (record_all later (recordGaugeMetric n v1 a1 s)) ! length (objects s)
        = objects (recordGaugeMetric n v1 a1 s) ! length (objects s)
    \<and> observe (record_all later (recordGaugeMetric n v1 a1 s)) (length (objects s)) = [v1]
    \<and> recordGaugeMetric n v2 a2 (record_all later (recordGaugeMetric n v1 a1 s))
        = record_all later (recordGaugeMetric n v1 a1 s)"
proof -
  let ?g = "Instrument \<lparr>i_kind = KObservableGauge, i_name = getMetricKey s n,
                        i_description = ''Gauge for '' @ n, i_unit = ''1'',
                        i_values = [], i_callbacks = [\<lambda>u. v1]\<rparr>"
  let ?s1 = "recordGaugeMetric n v1 a1 s"
  let ?s2 = "record_all later ?s1"
  have r1: "gauge_registered s (getMetricKey s n) (length (objects s)) ?g ?s1"
    by (rule recordGaugeMetric_first [OF init new])
  have r2: "gauge_registered s (getMetricKey s n) (length (objects s)) ?g ?s2"
    by (rule record_all_keeps [OF r1])
  have hit: "recordGaugeMetric n v2 a2 s' = s'"
    if "gauge_registered s (getMetricKey s n) (length (objects s)) ?g s'" for s'
  proof -
    from that have "initialized s'" "observableGauges s' (getMetricKey s' n) = Some (length (objects s))"
      by (simp_all add: gauge_registered_def getMetricKey_def)
    then show ?thesis by (rule recordGaugeMetric_hit)
  qed
  have obs: "observe s' (length (objects s)) = [v1]"
    if "gauge_registered s (getMetricKey s n) (length (objects s)) ?g s'" for s'
    using that by (simp add: gauge_registered_def observe_def)
  from r1 r2 hit [OF r1] hit [OF r2] obs [OF r1] obs [OF r2] show ?thesis
    by (simp add: gauge_registered_def)
qed

theorem recordGaugeMetric_first_value_stays_witness:
  "initialized (initialize True (new_service True (Some ''app.'')))
   \<and> observableGauges (initialize True (new_service True (Some ''app.'')))
        (getMetricKey (initialize True (new_service True (Some ''app.''))) ''queue.depth'') = None
   \<and> observe (recordGaugeMetric ''queue.depth'' 9 []
        (recordGaugeMetric ''queue.depth'' 5 [] (initialize True (new_service True (Some ''app.''))))) 0 = [5]"
proof -
  let ?s = "initialize True (new_service True (Some ''app.''))"
  have h: "initialized ?s" "observableGauges ?s (getMetricKey ?s ''queue.depth'') = None"
    by (simp_all add: initialize_def new_service_def)
  have l: "length (objects ?s) = 0"
    by (simp add: initialize_def new_service_def)
  from recordGaugeMetric_first_value_stays [OF h, of 5 "[]" 9 "[]" "[]"]
  have "observe (recordGaugeMetric ''queue.depth'' 5 [] ?s) (length (objects ?s)) = [5]"
    and "recordGaugeMetric ''queue.depth'' 9 [] (recordGaugeMetric ''queue.depth'' 5 [] ?s)
           = recordGaugeMetric ''queue.depth'' 5 [] ?s"
    by blast+
  with h l show ?thesis by simp
qed

lemma getCounter_generic:
  "getCounter = get_or_create KCounter [''add''] ''Counter for '' ''1'' None"
  by (simp add: fun_eq_iff getCounter_def get_or_create_def Let_def createInstrument_def)

lemma getHistogram_generic:
  "getHistogram = get_or_create KHistogram [''record''] ''Histogram for '' ''ms'' None"
  by (simp add: fun_eq_iff getHistogram_def get_or_create_def Let_def createInstrument_def)

lemma getUpDownCounter_generic:
  "getUpDownCounter = get_or_create KUpDownCounter [''add''] ''UpDownCounter for '' ''1'' None"
  by (simp add: fun_eq_iff getUpDownCounter_def get_or_create_def Let_def createInstrument_def)

lemma getObservableGauge_generic:
  "getObservableGauge n cb = get_or_create KObservableGauge [] ''Gauge for '' ''1'' (Some cb) n"
  by (simp add: fun_eq_iff getObservableGauge_def get_or_create_def Let_def createInstrument_def)

lemma cache_of_set_cache [simp]:
  "cache_of k' (set_cache k m s) = (if k' = k then m else cache_of k' s)"
  by (cases k; cases k') simp_all

lemma set_cache_fields [simp]:
  "objects (set_cache k m s) = objects s"
  "initialized (set_cache k m s) = initialized s"
  "prefix (set_cache k m s) = prefix s"
  "metricsEnabled (set_cache k m s) = metricsEnabled s"
  by (cases k; simp)+

lemma cache_of_objects_update [simp]:
  "cache_of k (s\<lparr>objects := xs\<rparr>) = cache_of k s"
  by (cases k) simp_all

lemma cache_of_initialized_update [simp]:
  "cache_of k (s\<lparr>initialized := b\<rparr>) = cache_of k s"
  by (cases k) simp_all

lemma get_or_create_hit:
  "initialized s \<Longrightarrow> cache_of k s (getMetricKey s n) = Some h \<Longrightarrow>
   get_or_create k lit label dunit cbo n opts s = (Some h, s)"
  by (simp add: get_or_create_def Let_def)

lemma getMetricKey_fq: "getMetricKey s n = or_default (prefix s) [] @ n"
  by (simp add: getMetricKey_def Let_def)

lemma get_or_create_miss:
  assumes "initialized s" "cache_of k s (getMetricKey s n) = None"
  shows "get_or_create k lit label dunit cbo n opts s =
     (Some (length (objects s)),
      set_cache k ((cache_of k s)(getMetricKey s n \<mapsto> length (objects s)))
        (s\<lparr>objects := objects s @ [Instrument (created k label dunit cbo n opts s)]\<rparr>))"
  using assms
  by (cases cbo)
     (simp_all add: get_or_create_def Let_def createInstrument_def addCallback_def created_def)

lemma get_or_create_off:
  "\<not> initialized s \<Longrightarrow>
   get_or_create k lit label dunit cbo n opts s =
     (Some (length (objects s)), s\<lparr>objects := objects s @ [Literal lit]\<rparr>)"
  by (simp add: get_or_create_def new_literal_def)

lemma registry_ok_literal:
  "registry_ok s \<Longrightarrow> registry_ok (s\<lparr>objects := objects s @ [Literal lit]\<rparr>)"
  unfolding registry_ok_def
  by (auto simp: nth_append less_Suc_eq)

lemma registry_ok_created:
  assumes ok: "registry_ok s" and miss: "cache_of k s key = None"
    and i: "i_kind i = k" "i_name i = key"
  shows "registry_ok (set_cache k ((cache_of k s)(key \<mapsto> length (objects s)))
           (s\<lparr>objects := objects s @ [Instrument i]\<rparr>))"
  unfolding registry_ok_def
proof (rule conjI; intro allI impI)
  fix k' key' h
  assume a: "cache_of k' (set_cache k ((cache_of k s)(key \<mapsto> length (objects s)))
               (s\<lparr>objects := objects s @ [Instrument i]\<rparr>)) key' = Some h"
  let ?s' = "set_cache k ((cache_of k s)(key \<mapsto> length (objects s)))
               (s\<lparr>objects := objects s @ [Instrument i]\<rparr>)"
  show "h < length (objects ?s') \<and>
        (\<exists>j. objects ?s' ! h = Instrument j \<and> i_kind j = k' \<and> i_name j = key')"
  proof (cases "k' = k \<and> key' = key")
    case True
    with a i show ?thesis by (auto simp: nth_append)
  next
    case False
    with a have "cache_of k' s key' = Some h" by (auto split: if_splits)
    with ok have "h < length (objects s) \<and>
        (\<exists>j. objects s ! h = Instrument j \<and> i_kind j = k' \<and> i_name j = key')"
      unfolding registry_ok_def by blast
    then show ?thesis by (simp add: nth_append)
  qed
next
  fix h j
  let ?s' = "set_cache k ((cache_of k s)(key \<mapsto> length (objects s)))
               (s\<lparr>objects := objects s @ [Instrument i]\<rparr>)"
  assume a: "h < length (objects ?s') \<and> objects ?s' ! h = Instrument j"
  show "cache_of (i_kind j) ?s' (i_name j) = Some h"
  proof (cases "h < length (objects s)")
    case True
    with a have o: "objects s ! h = Instrument j" by (simp add: nth_append)
    with ok True have c: "cache_of (i_kind j) s (i_name j) = Some h"
      unfolding registry_ok_def by blast
    with miss have "\<not> (i_kind j = k \<and> i_name j = key)" by auto
    with c show ?thesis by auto
  next
    case False
    with a have hl: "h = length (objects s)" by simp
    with a have "j = i" by simp
    with hl i show ?thesis by simp
  qed
qed

lemma registry_ok_get_or_create:
  assumes "registry_ok s"
  shows "registry_ok (snd (get_or_create k lit label dunit cbo n opts s))"
proof (cases "initialized s")
  case False
  with assms show ?thesis by (simp add: get_or_create_off registry_ok_literal)
next
  case True
  show ?thesis
  proof (cases "cache_of k s (getMetricKey s n)")
    case None
    have "registry_ok (set_cache k ((cache_of k s)(getMetricKey s n \<mapsto> length (objects s)))
        (s\<lparr>objects := objects s @ [Instrument (created k label dunit cbo n opts s)]\<rparr>))"
      by (rule registry_ok_created [OF assms None]) (simp_all add: created_def)
    with True None show ?thesis by (simp add: get_or_create_miss)
  next
    case (Some h)
    with True assms show ?thesis by (simp add: get_or_create_hit)
  qed
qed

lemma apply_mcall_same [simp]:
  "i_kind (apply_mcall c i) = i_kind i" "i_name (apply_mcall c i) = i_name i"
  by (cases c; simp)+

lemma registry_ok_call_on:
  assumes "registry_ok s"
  shows "registry_ok (snd (call_on h c s))"
proof (cases h)
  case None
  with assms show ?thesis by (simp add: call_on_def)
next
  case (Some a)
  show ?thesis
  proof (cases "a < length (objects s)")
    case False
    with Some assms show ?thesis by (simp add: call_on_def)
  next
    case True
    show ?thesis
    proof (cases "objects s ! a")
      case (Literal ms)
      with Some True assms show ?thesis by (simp add: call_on_def)
    next
      case (Instrument i)
      have "registry_ok (s\<lparr>objects := (objects s)[a := Instrument (apply_mcall c i)]\<rparr>)"
        unfolding registry_ok_def
      proof (rule conjI; intro allI impI)
        fix k key h
        assume "cache_of k (s\<lparr>objects := (objects s)[a := Instrument (apply_mcall c i)]\<rparr>) key = Some h"
        then have "cache_of k s key = Some h" by simp
        with assms have b: "h < length (objects s)"
          and "\<exists>j. objects s ! h = Instrument j \<and> i_kind j = k \<and> i_name j = key"
          unfolding registry_ok_def by blast+
        then obtain j where j: "objects s ! h = Instrument j" "i_kind j = k" "i_name j = key"
          by blast
        show "h < length (objects (s\<lparr>objects := (objects s)[a := Instrument (apply_mcall c i)]\<rparr>)) \<and>
          (\<exists>j. objects (s\<lparr>objects := (objects s)[a := Instrument (apply_mcall c i)]\<rparr>) ! h = Instrument j
               \<and> i_kind j = k \<and> i_name j = key)"
        proof (cases "h = a")
          case True
          with j Instrument have "i = j" by simp
          with True b j show ?thesis by simp
        next
          case False
          with b j show ?thesis by simp
        qed
      next
        fix h j
        assume a2: "h < length (objects (s\<lparr>objects := (objects s)[a := Instrument (apply_mcall c i)]\<rparr>))
           \<and> objects (s\<lparr>objects := (objects s)[a := Instrument (apply_mcall c i)]\<rparr>) ! h = Instrument j"
        show "cache_of (i_kind j) (s\<lparr>objects := (objects s)[a := Instrument (apply_mcall c i)]\<rparr>) (i_name j) = Some h"
        proof (cases "h = a")
          case True
          with a2 have "j = apply_mcall c i" by auto
          moreover from assms Instrument \<open>a < length (objects s)\<close>
          have "cache_of (i_kind i) s (i_name i) = Some a"
            unfolding registry_ok_def by blast
          ultimately show ?thesis using True by simp
        next
          case False
          with a2 have "h < length (objects s)" "objects s ! h = Instrument j" by simp_all
          with assms have "cache_of (i_kind j) s (i_name j) = Some h"
            unfolding registry_ok_def by blast
          then show ?thesis by simp
        qed
      qed
      with Some True Instrument assms show ?thesis by (simp add: call_on_def)
    qed
  qed
qed

lemma registry_ok_initialize: "registry_ok s \<Longrightarrow> registry_ok (initialize b s)"
  by (simp add: initialize_def registry_ok_def)

lemma registry_ok_perform: "registry_ok s \<Longrightarrow> registry_ok (perform op s)"
  by (cases op)
     (simp_all add: registry_ok_initialize registry_ok_call_on registry_ok_get_or_create
        getCounter_generic getHistogram_generic getUpDownCounter_generic getObservableGauge_generic)

lemma registry_ok_run: "registry_ok s \<Longrightarrow> registry_ok (run_ops ops s)"
  unfolding run_ops_def
  by (induction ops arbitrary: s) (simp_all add: registry_ok_perform)

lemma cache_of_new: "cache_of k (new_service on p) = Map.empty"
  by (cases k) (simp_all add: new_service_def)

lemma objects_new: "objects (new_service on p) = []"
  by (simp add: new_service_def)

lemma registry_ok_new: "registry_ok (new_service on p)"
  by (simp add: registry_ok_def cache_of_new objects_new)

lemma get_or_create_keeps:
  assumes "cache_of k0 s key0 = Some h0"
  shows "cache_of k0 (snd (get_or_create k lit label dunit cbo n opts s)) key0 = Some h0"
proof (cases "initialized s")
  case False
  with assms show ?thesis by (simp add: get_or_create_off)
next
  case True
  show ?thesis
  proof (cases "cache_of k s (getMetricKey s n)")
    case None
    with assms have "\<not> (k0 = k \<and> key0 = getMetricKey s n)" by auto
    with True None assms show ?thesis by (auto simp: get_or_create_miss)
  next
    case (Some h)
    with True assms show ?thesis by (simp add: get_or_create_hit)
  qed
qed

lemma get_or_create_fields:
  "initialized s \<Longrightarrow> initialized (snd (get_or_create k lit label dunit cbo n opts s))"
  "prefix (snd (get_or_create k lit label dunit cbo n opts s)) = prefix s"
  by (cases "initialized s"; cases "cache_of k s (getMetricKey s n)";
      simp add: get_or_create_off get_or_create_miss get_or_create_hit)+

lemma call_on_fields:
  "initialized (snd (call_on h c s)) = initialized s"
  "prefix (snd (call_on h c s)) = prefix s"
  "cache_of k (snd (call_on h c s)) = cache_of k s"
  by (simp_all add: call_on_def split: option.splits mobject.splits)

lemma cache_of_initialize [simp]: "cache_of k (initialize b s) = cache_of k s"
  by (simp add: initialize_def)

lemma perform_keeps:
  "initialized s \<Longrightarrow> initialized (perform op s)"
  "prefix (perform op s) = prefix s"
  "cache_of k0 s key0 = Some h0 \<Longrightarrow> cache_of k0 (perform op s) key0 = Some h0"
  by (cases op;
      simp add: initialize_def call_on_fields get_or_create_fields get_or_create_keeps
        getCounter_generic getHistogram_generic getUpDownCounter_generic
        getObservableGauge_generic)+

lemma run_ops_keeps:
  "initialized s \<Longrightarrow> initialized (run_ops ops s)"
  "prefix (run_ops ops s) = prefix s"
  "cache_of k0 s key0 = Some h0 \<Longrightarrow> cache_of k0 (run_ops ops s) key0 = Some h0"
  unfolding run_ops_def
  by (induction ops arbitrary: s; simp add: perform_keeps)+

lemma later_hit:
  assumes "initialized s" "cache_of k s (getMetricKey s n) = Some h"
  shows "get_or_create k lit label dunit cbo n opts (run_ops ops s) = (Some h, run_ops ops s)"
proof -
  have "getMetricKey (run_ops ops s) n = getMetricKey s n"
    by (simp add: getMetricKey_def run_ops_keeps)
  with assms show ?thesis
    by (simp add: get_or_create_hit run_ops_keeps)
qed

lemma stable_get_or_create:
  assumes ok: "registry_ok s" and init: "initialized s"
  shows "stable_handle k (\<lambda>x. get_or_create k lit label dunit (cbo x)) n s"
proof (cases "cache_of k s (getMetricKey s n)")
  case (Some h)
  with ok have o: "h < length (objects s)"
    "\<exists>i. objects s ! h = Instrument i \<and> i_kind i = k \<and> i_name i = getMetricKey s n"
    unfolding registry_ok_def by blast+
  have first: "get_or_create k lit label dunit (cbo x) n opts s = (Some h, s)" for x opts
    using init Some by (rule get_or_create_hit)
  show ?thesis
    unfolding stable_handle_def
    using Some o later_hit [OF init Some]
    by (intro exI [of _ h]) (simp add: first fq_name_def getMetricKey_fq)
next
  case None
  let ?h = "length (objects s)"
  let ?s' = "\<lambda>x opts. set_cache k ((cache_of k s)(getMetricKey s n \<mapsto> ?h))
        (s\<lparr>objects := objects s @ [Instrument (created k label dunit (cbo x) n opts s)]\<rparr>)"
  have first: "get_or_create k lit label dunit (cbo x) n opts s = (Some ?h, ?s' x opts)" for x opts
    using init None by (rule get_or_create_miss)
  have i': "initialized (?s' x opts)" for x opts
    using init by simp
  have c': "cache_of k (?s' x opts) (getMetricKey (?s' x opts) n) = Some ?h" for x opts
    by (simp add: getMetricKey_def)
  show ?thesis
    unfolding stable_handle_def
    using later_hit [OF i' c']
    by (intro exI [of _ ?h]) (simp add: first fq_name_def getMetricKey_fq created_def)
qed

lemma registry_ok_one_per_name: "registry_ok s \<Longrightarrow> one_per_name s"
  unfolding registry_ok_def one_per_name_def
  by (metis option.inject)

text \<open>
  Claim C7, as amended. In every state of an initialized service, each of getCounter,
  getHistogram, getUpDownCounter and getObservableGauge gives a stable handle for
  every name: all calls return the identical handle, whatever the options and the
  callback, now and after anything else that happens to the service; the handle is
  registered under the configured prefix followed by the name (the name alone when
  no prefix is configured); and the meter never holds two instruments of one kind
  with one name.
\<close>

theorem registry_handles_are_stable:
  assumes reach: "s = run_ops ops0 (new_service on p)"
    and init: "initialized s"
  shows "stable_handle KCounter (\<lambda>x :: unit. getCounter) n s
    \<and> stable_handle KHistogram (\<lambda>x :: unit. getHistogram) n s
    \<and> stable_handle KUpDownCounter (\<lambda>x :: unit. getUpDownCounter) n s
    \<and> stable_handle KObservableGauge (\<lambda>cb n. getObservableGauge n cb) n s
    \<and> fq_name s n = (case prefix s of None \<Rightarrow> n | Some pre \<Rightarrow> pre @ n)
    \<and> one_per_name s
    \<and> (\<forall>ops. one_per_name (run_ops ops s))"
proof -
  from reach have ok: "registry_ok s"
    by (simp add: registry_ok_run registry_ok_new)
  have g: "(\<lambda>cb n. getObservableGauge n cb) =
        (\<lambda>cb. get_or_create KObservableGauge [] ''Gauge for '' ''1'' (Some cb))"
    by (simp add: fun_eq_iff getObservableGauge_generic)
  have "stable_handle KCounter (\<lambda>x :: unit. getCounter) n s"
    unfolding getCounter_generic by (rule stable_get_or_create [OF ok init])
  moreover have "stable_handle KHistogram (\<lambda>x :: unit. getHistogram) n s"
    unfolding getHistogram_generic by (rule stable_get_or_create [OF ok init])
  moreover have "stable_handle KUpDownCounter (\<lambda>x :: unit. getUpDownCounter) n s"
    unfolding getUpDownCounter_generic by (rule stable_get_or_create [OF ok init])
  moreover have "stable_handle KObservableGauge (\<lambda>cb n. getObservableGauge n cb) n s"
    unfolding g by (rule stable_get_or_create [OF ok init])
  moreover have "fq_name s n = (case prefix s of None \<Rightarrow> n | Some pre \<Rightarrow> pre @ n)"
    by (simp add: fq_name_def or_default_def split: option.splits)
  moreover have "one_per_name (run_ops ops s)" for ops
    by (rule registry_ok_one_per_name) (rule registry_ok_run [OF ok])
  moreover have "one_per_name s"
    by (rule registry_ok_one_per_name [OF ok])
  ultimately show ?thesis by blast
qed

text \<open>
  The claim as stated fails while the service is not initialized: two calls of
  getCounter with one name return two different objects, and nothing is registered.
\<close>

theorem uninitialized_handles_differ:
  "fst (getCounter ''jobs'' None (new_service False None)) = Some 0
   \<and> fst (getCounter ''jobs'' None (snd (getCounter ''jobs'' None (new_service False None)))) = Some 1
   \<and> counters (snd (getCounter ''jobs'' None (snd (getCounter ''jobs'' None (new_service False None)))))
        ''jobs'' = None"
  by (simp add: getCounter_def new_literal_def new_service_def)

theorem registry_handles_are_stable_witness:
  "app_service = run_ops [Initialize True] (new_service True (Some ''app.''))
   \<and> initialized app_service
   \<and> fst (getCounter ''jobs'' None app_service) = Some 0
   \<and> getCounter ''jobs'' (Some \<lparr>m_description = Some ''again'', m_unit = None\<rparr>)
        (snd (getCounter ''jobs'' None app_service))
      = (Some 0, snd (getCounter ''jobs'' None app_service))
   \<and> fq_name app_service ''jobs'' = ''app.jobs''"
proof -
  have r: "app_service = run_ops [Initialize True] (new_service True (Some ''app.''))"
    by (simp add: app_service_def)
  have i: "initialized app_service"
    by (simp add: app_service_def run_ops_def initialize_def new_service_def)
  have f: "fst (getCounter ''jobs'' None app_service) = Some 0"
    by (simp add: app_service_def run_ops_def initialize_def new_service_def getCounter_def
        Let_def createInstrument_def getMetricKey_def or_default_def)
  from registry_handles_are_stable [OF r i, of "''jobs''"]
  have st: "stable_handle KCounter (\<lambda>x :: unit. getCounter) ''jobs'' app_service"
    and fq: "fq_name app_service ''jobs'' =
              (case prefix app_service of None \<Rightarrow> ''jobs'' | Some pre \<Rightarrow> pre @ ''jobs'')"
    by blast+
  from st obtain h where h: "\<forall>x opts.
        fst (getCounter ''jobs'' opts app_service) = Some h
        \<and> (\<forall>ops x' opts'.
              getCounter ''jobs'' opts' (run_ops ops (snd (getCounter ''jobs'' opts app_service)))
                = (Some h, run_ops ops (snd (getCounter ''jobs'' opts app_service))))"
    unfolding stable_handle_def by blast
  from h f have "h = 0" by simp
  with h have "getCounter ''jobs'' (Some \<lparr>m_description = Some ''again'', m_unit = None\<rparr>)
        (run_ops [] (snd (getCounter ''jobs'' None app_service)))
      = (Some 0, run_ops [] (snd (getCounter ''jobs'' None app_service)))"
    by blast
  then have again: "getCounter ''jobs'' (Some \<lparr>m_description = Some ''again'', m_unit = None\<rparr>)
        (snd (getCounter ''jobs'' None app_service))
      = (Some 0, snd (getCounter ''jobs'' None app_service))"
    by (simp add: run_ops_def)
  have p: "prefix app_service = Some ''app.''"
    by (simp add: app_service_def run_ops_def initialize_def new_service_def)
  from r i f again fq p show ?thesis by simp
qed

section \<open>Properties of the sanitizer\<close>

lemma startsWith_iff: "startsWith s t \<longleftrightarrow> (\<exists>q. s = t @ q)"
  by (induction s t rule: startsWith.induct) auto

lemma str_includes_iff: "str_includes s t \<longleftrightarrow> (\<exists>p q. s = p @ t @ q)"
proof (induction s)
  case Nil
  then show ?case by auto
next
  case (Cons a s)
  show ?case
  proof
    assume "str_includes (a # s) t"
    then consider "startsWith (a # s) t" | "str_includes s t" by auto
    then show "\<exists>p q. a # s = p @ t @ q"
    proof cases
      case 1
      then obtain q where "a # s = t @ q" by (auto simp: startsWith_iff)
      then have "a # s = [] @ t @ q" by simp
      then show ?thesis by blast
    next
      case 2
      with Cons.IH obtain p q where "s = p @ t @ q" by auto
      then have "a # s = (a # p) @ t @ q" by simp
      then show ?thesis by blast
    qed
  next
    assume "\<exists>p q. a # s = p @ t @ q"
    then obtain p q where pq: "a # s = p @ t @ q" by blast
    show "str_includes (a # s) t"
    proof (cases p)
      case Nil
      with pq have "startsWith (a # s) t" by (auto simp: startsWith_iff)
      then show ?thesis by simp
    next
      case (Cons b p')
      with pq have "s = p' @ t @ q" by simp
      with Cons.IH have "str_includes s t" by blast
      then show ?thesis by simp
    qed
  qed
qed

lemma str_includes_trans: "str_includes s t \<Longrightarrow> str_includes t u \<Longrightarrow> str_includes s u"
proof -
  assume "str_includes s t" "str_includes t u"
  then obtain p q p' q' where "s = p @ t @ q" "t = p' @ u @ q'"
    by (auto simp: str_includes_iff)
  then have "s = (p @ p') @ u @ (q' @ q)" by simp
  then show ?thesis unfolding str_includes_iff by blast
qed

lemma str_includes_set: "str_includes s t \<Longrightarrow> set t \<subseteq> set s"
  by (auto simp: str_includes_iff)

lemma lower_char_not_upper: "lower_char c \<noteq> CHR ''T''"
  by (simp add: lower_char_def split: option.splits if_splits)

lemma lowered_fields:
  "map toLowerCase sensitiveFields =
     [''password'', ''token'', ''secret'', ''authorization'', ''key'', ''apikey'', ''api_key'',
      ''credential'', ''credentials'', ''accesstoken'', ''refreshtoken'', ''auth'',
      ''jwt'', ''session'', ''cookie'', ''csrf'', ''ssn'', ''cc'', ''card'', ''cvv'', ''pin'']"
  by (simp add: sensitiveFields_def toLowerCase_def lower_char_def)

lemma is_sensitive_lowered:
  "is_sensitive key \<longleftrightarrow>
     list_ex (str_includes (toLowerCase key)) (map toLowerCase sensitiveFields)"
  by (simp add: is_sensitive_def list_ex_iff)

lemma no_upper_T: "\<not> str_includes (toLowerCase key) (p @ CHR ''T'' # q)"
proof
  assume "str_includes (toLowerCase key) (p @ CHR ''T'' # q)"
  then have "CHR ''T'' \<in> set (toLowerCase key)"
    by (auto dest: str_includes_set)
  then obtain x where "lower_char x = CHR ''T''"
    by (auto simp: toLowerCase_def)
  then show False
    by (simp add: lower_char_not_upper)
qed

lemma fields_cover:
  assumes "a6 \<Longrightarrow> a5" "a7 \<Longrightarrow> a5" "a9 \<Longrightarrow> a8" "a10 \<Longrightarrow> a2" "a11 \<Longrightarrow> a2" "\<not> c7" "\<not> c8"
  shows "(a1 \<or> a2 \<or> a3 \<or> a4 \<or> a5 \<or> a6 \<or> a7 \<or> a8 \<or> a9 \<or> a10 \<or> a11 \<or> a12 \<or> a13 \<or> a14
            \<or> a15 \<or> a16 \<or> a17 \<or> a18 \<or> a19 \<or> a20 \<or> a21 \<or> False)
         \<longleftrightarrow> (a1 \<or> a2 \<or> a3 \<or> a4 \<or> a5 \<or> a8 \<or> c7 \<or> c8 \<or> a12 \<or> a13 \<or> a14
            \<or> a15 \<or> a16 \<or> a17 \<or> a18 \<or> a19 \<or> a20 \<or> a21 \<or> False)"
  using assms by blast

lemma is_sensitive_claimed:
  "is_sensitive key \<longleftrightarrow> list_ex (str_includes (toLowerCase key)) claimed_terms"
proof -
  let ?L = "toLowerCase key"
  have sub: "str_includes ?L w \<Longrightarrow> str_includes w u \<Longrightarrow> str_includes ?L u" for w u
    by (rule str_includes_trans)
  have k1: "str_includes ''apikey'' ''key''" "str_includes ''api_key'' ''key''"
    "str_includes ''credentials'' ''credential''" "str_includes ''accesstoken'' ''token''"
    "str_includes ''refreshtoken'' ''token''"
    by simp_all
  have a: "\<not> str_includes ?L ''accessToken''"
    using no_upper_T [of key "''access''" "''oken''"] by simp
  have r: "\<not> str_includes ?L ''refreshToken''"
    using no_upper_T [of key "''refresh''" "''oken''"] by simp
  show ?thesis
    unfolding is_sensitive_lowered lowered_fields claimed_terms_def list_ex_Cons_iff list_ex_Nil_iff
    by (rule fields_cover [OF sub [OF _ k1(1)] sub [OF _ k1(2)] sub [OF _ k1(3)]
          sub [OF _ k1(4)] sub [OF _ k1(5)] a r])
qed

lemma redact_entry_eq:
  "redact_entry kv =
     (if is_sensitive (fst kv) then (fst kv, JStr ''[REDACTED]'')
      else if typeof_object (snd kv) \<and> snd kv \<noteq> JNull then (fst kv, sanitizeData (snd kv))
      else kv)"
  by (cases "snd kv") (auto simp: redact_entry_def is_sensitive_claimed prod_eq_iff)

lemma sanitizeData_entries: "sanitizeData data = JObj (map redact_entry (own_entries data))"
  by (subst sanitizeData.simps) (simp add: redact_entry_eq [abs_def])

text \<open>
  Claim C5, as amended. The sanitized object has the keys of the input in the same
  order. The value of a key whose lowercased name contains one of the sensitive
  terms the specification lists is replaced by \<open>[REDACTED]\<close> (the test the code
  makes, with its own longer list, is the same test); under any other key a nested
  object or array is replaced by the sanitized object of its own entries (so an
  array comes back as an object keyed by its indices), and every other value is
  passed through unchanged. The example of the specification holds.
\<close>

theorem sanitizeData_redacts:
  "sanitizeData data = JObj (map redact_entry (own_entries data))
   \<and> redact_entry (key, v) =
       (if (\<exists>w \<in> set claimed_terms. str_includes (toLowerCase key) w) then (key, JStr ''[REDACTED]'')
        else if is_object v then (key, JObj (map redact_entry (own_entries v)))
        else (key, v))
   \<and> is_sensitive key = (\<exists>w \<in> set claimed_terms. str_includes (toLowerCase key) w)
   \<and> own_entries (JObj kvs) = kvs
   \<and> own_entries (JArr [x0, x1]) = [(''0'', x0), (''1'', x1)]
   \<and> sanitizeData (JObj [(''password'', JStr ''p1''),
                         (''nested'', JObj [(''token'', JStr ''t1''), (''ok'', JStr ''v'')])])
       = JObj [(''password'', JStr ''[REDACTED]''),
               (''nested'', JObj [(''token'', JStr ''[REDACTED]''), (''ok'', JStr ''v'')])]"
proof (intro conjI)
  show "sanitizeData data = JObj (map redact_entry (own_entries data))"
    by (rule sanitizeData_entries)
  show "redact_entry (key, v) =
       (if (\<exists>w \<in> set claimed_terms. str_includes (toLowerCase key) w) then (key, JStr ''[REDACTED]'')
        else if is_object v then (key, JObj (map redact_entry (own_entries v)))
        else (key, v))"
  proof -
    have "redact_entry (key, v) =
       (if is_sensitive key then (key, JStr ''[REDACTED]'')
        else if is_object v then (key, sanitizeData v)
        else (key, v))"
      by (simp add: redact_entry_eq)
    also have "sanitizeData v = JObj (map redact_entry (own_entries v))"
      by (rule sanitizeData_entries)
    finally show ?thesis
      by (simp only: is_sensitive_claimed list_ex_iff)
  qed
  show "is_sensitive key = (\<exists>w \<in> set claimed_terms. str_includes (toLowerCase key) w)"
    by (simp add: is_sensitive_claimed list_ex_iff)
  show "own_entries (JObj kvs) = kvs" by simp
  show "own_entries (JArr [x0, x1]) = [(''0'', x0), (''1'', x1)]"
    by (simp add: index_key.simps digit_char_def)
  have s: "is_sensitive ''password''" "is_sensitive ''token''"
    "\<not> is_sensitive ''nested''" "\<not> is_sensitive ''ok''"
    by (simp_all add: is_sensitive_lowered lowered_fields toLowerCase_def lower_char_def)
  show "sanitizeData (JObj [(''password'', JStr ''p1''),
                         (''nested'', JObj [(''token'', JStr ''t1''), (''ok'', JStr ''v'')])])
       = JObj [(''password'', JStr ''[REDACTED]''),
               (''nested'', JObj [(''token'', JStr ''[REDACTED]''), (''ok'', JStr ''v'')])]"
    by (simp add: sanitizeData_entries redact_entry_eq s)
qed

text \<open>
  The claim as stated fails on an array under a key that is not sensitive: it is not
  passed through unchanged, the sanitizer returns an object in its place.
\<close>

theorem sanitizeData_rebuilds_arrays:
  "\<not> is_sensitive ''tags''
   \<and> sanitizeData (JObj [(''tags'', JArr [JStr ''a'', JStr ''b''])])
       = JObj [(''tags'', JObj [(''0'', JStr ''a''), (''1'', JStr ''b'')])]
   \<and> sanitizeData (JObj [(''tags'', JArr [JStr ''a'', JStr ''b''])])
       \<noteq> JObj [(''tags'', JArr [JStr ''a'', JStr ''b''])]"
proof -
  have s: "\<not> is_sensitive ''tags''" "\<not> is_sensitive ''0''" "\<not> is_sensitive ''1''"
    by (simp_all add: is_sensitive_lowered lowered_fields toLowerCase_def lower_char_def)
  then show ?thesis
    by (simp add: sanitizeData_entries redact_entry_eq index_key.simps digit_char_def)
qed

section \<open>Properties of the HTTP interceptor\<close>

text \<open>
  Claim C4 at a concrete input: \<open>GET /users\<close>, the handler fails with \<open>boom\<close>. The
  subscriber gets \<open>boom\<close> itself, the error counter gets one increment and the
  duration histogram one observation; but the only span of the request has been
  given the status OK and ended before the handler failed, and no ERROR status is
  ever set on it (no span is current when setError runs). The calls on the span are
  the attributes, the logger's read of its ids, the status OK and \<open>end\<close>.
\<close>

theorem intercept_failed_request_span_ends_ok:
  "fst (intercept stringify_braces js_String get_users (Fails boom) 12 ready_world) = Inl boom
   \<and> map t_calls (tspans (snd (intercept stringify_braces js_String get_users (Fails boom) 12 ready_world)))
       = [[Call M_setAttributes [JObj (http_attributes get_users)], Call M_spanContext [],
           setStatus_OK, end_span]]
   \<and> map fst (values_of ''http.error.total''
        (metrics (snd (intercept stringify_braces js_String get_users (Fails boom) 12 ready_world))))
       = [1]
   \<and> map fst (values_of ''http.request.duration''
        (metrics (snd (intercept stringify_braces js_String get_users (Fails boom) 12 ready_world))))
       = [12]"
  by code_simp

section \<open>The sanitizer does not touch its argument\<close>

lemma changes_only_refl: "s < length h \<Longrightarrow> changes_only s h h"
  unfolding changes_only_def
  by (metis append_Nil2 id_take_nth_drop)

lemma changes_only_h_set: "s < length h \<Longrightarrow> changes_only s h (h_set s key v h)"
  unfolding changes_only_def h_set_def
  by (metis append_Nil2 upd_conv_take_nth_drop)

lemma changes_only_append: "s < length h \<Longrightarrow> changes_only s h (h @ new)"
  unfolding changes_only_def
  by (metis append.assoc append_Cons id_take_nth_drop)

lemma changes_only_trans:
  assumes "changes_only s h h'" "changes_only s h' h''"
  shows "changes_only s h h''"
proof -
  from assms(1) obtain ob new where s: "s < length h"
    and h': "h' = take s h @ ob # drop (Suc s) h @ new"
    unfolding changes_only_def by blast
  from assms(2) obtain ob' new' where h'': "h'' = take s h' @ ob' # drop (Suc s) h' @ new'"
    unfolding changes_only_def by blast
  from s h' have t: "take s h' = take s h" by simp
  from s h' have d: "drop (Suc s) h' = drop (Suc s) h @ new" by simp
  from h'' t d have "h'' = take s h @ ob' # drop (Suc s) h @ (new @ new')" by simp
  with s show ?thesis unfolding changes_only_def by blast
qed

lemma changes_only_length: "changes_only s h h' \<Longrightarrow> length h \<le> length h'"
  unfolding changes_only_def by auto

lemma changes_only_below: "changes_only s h h' \<Longrightarrow> take s h' = take s h"
  unfolding changes_only_def by auto

lemma sanitize_keys_frame:
  assumes sub: "\<And>data h. \<exists>new. snd (sanitizeDataH depth data h) = h @ new"
  shows "s < length h \<Longrightarrow> changes_only s h (snd (sanitize_keys depth s keys h))"
proof (induction keys arbitrary: h)
  case Nil
  then show ?case by (simp add: changes_only_refl)
next
  case (Cons key keys)
  note s = \<open>s < length h\<close>
  have same: "changes_only s h (snd (sanitize_keys depth s keys h))"
    using Cons.IH [OF s] .
  show ?case
  proof (cases "is_sensitive key")
    case True
    let ?h1 = "h_set s key (HStr ''[REDACTED]'') h"
    have c1: "changes_only s h ?h1" using s by (rule changes_only_h_set)
    have "s < length ?h1" using s by (simp add: h_set_def)
    then have "changes_only s ?h1 (snd (sanitize_keys depth s keys ?h1))" by (rule Cons.IH)
    with c1 True show ?thesis by (simp add: changes_only_trans)
  next
    case False
    show ?thesis
    proof (cases "h_get h s key")
      case (HRef nested)
      obtain r h' where run: "sanitizeDataH depth nested h = (r, h')"
        by (metis prod.exhaust)
      from sub [of nested h] run obtain new where h': "h' = h @ new" by auto
      with s have c1: "changes_only s h h'" by (simp add: changes_only_append)
      show ?thesis
      proof (cases r)
        case None
        with False HRef run c1 show ?thesis by simp
      next
        case (Some a)
        let ?h2 = "h_set s key (HRef a) h'"
        from s h' have s': "s < length h'" by simp
        then have c2: "changes_only s h' ?h2" by (rule changes_only_h_set)
        from s' have "s < length ?h2" by (simp add: h_set_def)
        then have "changes_only s ?h2 (snd (sanitize_keys depth s keys ?h2))" by (rule Cons.IH)
        with c1 c2 have "changes_only s h (snd (sanitize_keys depth s keys ?h2))"
          by (blast intro: changes_only_trans)
        with False HRef run Some show ?thesis by simp
      qed
    qed (use False same in simp_all)
  qed
qed

lemma sanitizeDataH_frame: "\<exists>new. snd (sanitizeDataH depth data h) = h @ new"
proof (induction depth arbitrary: data h)
  case 0
  then show ?case by simp
next
  case (Suc depth)
  show ?case
  proof (cases "data < length h")
    case False
    then show ?thesis by simp
  next
    case True
    let ?h1 = "h @ [(PlainObject, snd (h ! data))]"
    let ?r = "sanitize_keys depth (length h) (map fst (snd (?h1 ! length h))) ?h1"
    have "changes_only (length h) ?h1 (snd ?r)"
      by (rule sanitize_keys_frame [OF Suc.IH]) simp
    then have "take (length h) (snd ?r) = take (length h) ?h1"
      by (rule changes_only_below)
    then have "take (length h) (snd ?r) = h" by simp
    then have "snd ?r = h @ drop (length h) (snd ?r)"
      by (metis append_take_drop_id)
    then have "\<exists>new. snd ?r = h @ new" ..
    with True show ?thesis
      by (auto simp: Let_def split: prod.splits bool.splits)
  qed
qed

lemma read_props_agree:
  assumes val: "\<And>v t. \<forall>b. v = HRef b \<longrightarrow> P b \<Longrightarrow> read_value n h v = Some t
                  \<Longrightarrow> read_value n h' v = Some t"
  shows "\<forall>k b. (k, HRef b) \<in> set kvs \<longrightarrow> P b \<Longrightarrow> read_props n h kvs = Some ts
           \<Longrightarrow> read_props n h' kvs = Some ts"
proof (induction kvs arbitrary: ts)
  case Nil
  then show ?case by simp
next
  case (Cons kv kvs)
  from Cons.prems(2) obtain t ts' where
    r: "read_value n h (snd kv) = Some t" "read_props n h kvs = Some ts'" "ts = (fst kv, t) # ts'"
    by (auto split: option.splits)
  have "\<forall>b. snd kv = HRef b \<longrightarrow> P b"
    using Cons.prems(1) by (metis list.set_intros(1) prod.collapse)
  from val [OF this r(1)] have v: "read_value n h' (snd kv) = Some t" .
  have "\<forall>k b. (k, HRef b) \<in> set kvs \<longrightarrow> P b"
    using Cons.prems(1) by simp
  from Cons.IH [OF this r(2)] have "read_props n h' kvs = Some ts'" .
  with v r(3) show ?case by simp
qed

lemma read_value_agree:
  assumes agree: "\<And>a. P a \<Longrightarrow> a < length h \<Longrightarrow> a < length h' \<and> h' ! a = h ! a"
    and closed: "\<And>a k b. P a \<Longrightarrow> a < length h \<Longrightarrow> (k, HRef b) \<in> set (snd (h ! a)) \<Longrightarrow> P b"
  shows "\<forall>b. v = HRef b \<longrightarrow> P b \<Longrightarrow> read_value n h v = Some t \<Longrightarrow> read_value n h' v = Some t"
proof (induction n arbitrary: v t)
  case 0
  then show ?case by (cases v) simp_all
next
  case (Suc n)
  show ?case
  proof (cases v)
    case (HRef a)
    with Suc.prems(1) have pa: "P a" by simp
    from Suc.prems(2) HRef have a: "a < length h" and d: "distinct (map fst (snd (h ! a)))"
      by (auto split: if_splits)
    from Suc.prems(2) HRef a d obtain kvs where
      k: "read_props n h (snd (h ! a)) = Some kvs"
      by (auto split: option.splits)
    from agree [OF pa a] have a': "a < length h'" "h' ! a = h ! a" by simp_all
    have "\<forall>k b. (k, HRef b) \<in> set (snd (h ! a)) \<longrightarrow> P b"
      using closed [OF pa a] by blast
    from read_props_agree [of P n h h', OF Suc.IH this k]
    have "read_props n h' (snd (h ! a)) = Some kvs" by simp
    with Suc.prems(2) HRef a d k a' show ?thesis by simp
  qed (use Suc.prems in simp_all)
qed

lemma read_props_agree':
  assumes agree: "\<And>a. P a \<Longrightarrow> a < length h \<Longrightarrow> a < length h' \<and> h' ! a = h ! a"
    and closed: "\<And>a k b. P a \<Longrightarrow> a < length h \<Longrightarrow> (k, HRef b) \<in> set (snd (h ! a)) \<Longrightarrow> P b"
  shows "\<forall>k b. (k, HRef b) \<in> set kvs \<longrightarrow> P b \<Longrightarrow> read_props n h kvs = Some ts
           \<Longrightarrow> read_props n h' kvs = Some ts"
  by (rule read_props_agree [of P n h h']) (rule read_value_agree [OF agree closed], assumption+)

text \<open>Reading is not disturbed by objects added at the end.\<close>

lemma read_value_extend:
  "read_value n h v = Some t \<Longrightarrow> read_value n (h @ added) v = Some t"
  by (rule read_value_agree [of "\<lambda>a. True" h "h @ added"]) (simp_all add: nth_append)

lemma read_props_extend:
  "read_props n h kvs = Some ts \<Longrightarrow> read_props n (h @ added) kvs = Some ts"
  by (rule read_props_agree' [of "\<lambda>a. True" h "h @ added"]) (simp_all add: nth_append)

text \<open>Reading above \<open>s\<close> is not disturbed by a change of the object at \<open>s\<close>.\<close>

lemma above_agree:
  assumes c: "closed_above (length h0) news"
  shows "length h0 < a \<Longrightarrow> a < length (h0 @ ob # news) \<Longrightarrow>
         a < length (h0 @ ob' # news @ added)
         \<and> (h0 @ ob' # news @ added) ! a = (h0 @ ob # news) ! a"
    and "length h0 < a \<Longrightarrow> a < length (h0 @ ob # news) \<Longrightarrow>
         (k, HRef b) \<in> set (snd ((h0 @ ob # news) ! a)) \<Longrightarrow> length h0 < b"
proof -
  assume a: "length h0 < a" "a < length (h0 @ ob # news)"
  define j where "j = a - Suc (length h0)"
  with a have j: "a = length h0 + Suc j" "j < length news" by simp_all
  then have n1: "(h0 @ ob # news) ! a = news ! j"
    by (simp add: nth_append)
  from j have n2: "(h0 @ ob' # news @ added) ! a = news ! j"
    by (simp add: nth_append)
  from j n1 n2 show "a < length (h0 @ ob' # news @ added)
         \<and> (h0 @ ob' # news @ added) ! a = (h0 @ ob # news) ! a"
    by simp
  assume "(k, HRef b) \<in> set (snd ((h0 @ ob # news) ! a))"
  with n1 j c show "length h0 < b"
    unfolding closed_above_def refs_above_def by (metis nth_mem)
qed

lemma read_props_append:
  "read_props n h (a @ b) =
     (case read_props n h a of
        None \<Rightarrow> None
      | Some x \<Rightarrow> (case read_props n h b of None \<Rightarrow> None | Some y \<Rightarrow> Some (x @ y)))"
  by (induction a) (auto split: option.splits)

lemma set_prop_at:
  "k \<notin> fst ` set res \<Longrightarrow> set_prop k x (res @ (k, v) # rest) = res @ (k, x) # rest"
  by (induction res) auto

lemma h_get_at:
  assumes "k \<notin> fst ` set res"
  shows "h_get (h0 @ (kd, res @ (k, v) # rest) # news) (length h0) k = v"
proof -
  from assms have "map_of res k = None"
    by (simp add: map_of_eq_None_iff)
  then show ?thesis
    by (simp add: h_get_def map_add_def map_of_append)
qed

lemma h_set_at:
  assumes "k \<notin> fst ` set res"
  shows "h_set (length h0) k x (h0 @ (kd, res @ (k, v) # rest) # news)
           = h0 @ (kd, res @ (k, x) # rest) # news"
  using assms by (simp add: h_set_def set_prop_at)

lemma read_value_is_object: "read_value n h (HRef b) = Some t \<Longrightarrow> is_object t"
  by (cases n) (auto split: if_splits option.splits okind.splits)

lemma read_value_prim:
  "\<forall>b. v \<noteq> HRef b \<Longrightarrow> read_value n h v = read_value n h' v"
  "\<forall>b. v \<noteq> HRef b \<Longrightarrow> read_value n h v = Some t \<Longrightarrow> \<not> is_object t"
  by (cases v; auto)+

lemma redact_entry_cases:
  "is_sensitive k \<Longrightarrow> redact_entry (k, t) = (k, JStr ''[REDACTED]'')"
  "\<not> is_sensitive k \<Longrightarrow> is_object t \<Longrightarrow> redact_entry (k, t) = (k, sanitizeData t)"
  "\<not> is_sensitive k \<Longrightarrow> \<not> is_object t \<Longrightarrow> redact_entry (k, t) = (k, t)"
  by (simp_all add: redact_entry_eq)

lemma closed_above_mono: "closed_above s' obs \<Longrightarrow> s \<le> s' \<Longrightarrow> closed_above s obs"
  unfolding closed_above_def refs_above_def by fastforce

lemma closed_above_append:
  "closed_above s (a @ b) = (closed_above s a \<and> closed_above s b)"
  unfolding closed_above_def by auto

lemma refs_above_append:
  "refs_above s (a @ b) = (refs_above s a \<and> refs_above s b)"
  unfolding refs_above_def by auto

text \<open>Reading what lies above \<open>s\<close> after the object at \<open>s\<close> was replaced and objects were added.\<close>

lemma read_props_above:
  assumes "closed_above (length h0) news" "refs_above (length h0) kvs"
    and "read_props n (h0 @ ob # news) kvs = Some ts"
  shows "read_props n (h0 @ ob' # news @ added) kvs = Some ts"
proof (rule read_props_agree' [of "\<lambda>a. length h0 < a" "h0 @ ob # news" _ kvs n ts])
  show "\<forall>k b. (k, HRef b) \<in> set kvs \<longrightarrow> length h0 < b"
    using assms(2) unfolding refs_above_def by blast
qed (use assms(3) above_agree [OF assms(1)] in blast)+

lemma read_value_above:
  assumes "closed_above (length h0) news" "length h0 < b"
    and "read_value n (h0 @ ob # news) (HRef b) = Some t"
  shows "read_value n (h0 @ ob' # news @ added) (HRef b) = Some t"
proof (rule read_value_agree [of "\<lambda>a. length h0 < a" "h0 @ ob # news" _ "HRef b" n t])
  show "\<forall>c. HRef b = HRef c \<longrightarrow> length h0 < c"
    using assms(2) by simp
qed (use assms(3) above_agree [OF assms(1)] in blast)+

lemma sanitize_keys_sim:
  assumes sub: "\<And>data h v. read_value depth h (HRef data) = Some v \<Longrightarrow>
      \<exists>new. sanitizeDataH depth data h = (Some (length h), h @ new)
        \<and> read_value depth (h @ new) (HRef (length h)) = Some (sanitizeData v)
        \<and> closed_above (length h) new"
  shows "read_props depth h0 todo = Some vals \<Longrightarrow>
     distinct (map fst (res @ todo)) \<Longrightarrow>
     refs_above (length h0) res \<Longrightarrow> closed_above (length h0) news \<Longrightarrow>
     read_props depth (h0 @ (PlainObject, res @ todo) # news) res = Some rvals \<Longrightarrow>
     \<exists>res' news'.
       sanitize_keys depth (length h0) (map fst todo) (h0 @ (PlainObject, res @ todo) # news)
         = (True, h0 @ (PlainObject, res @ res') # news')
       \<and> map fst res' = map fst todo
       \<and> refs_above (length h0) res' \<and> closed_above (length h0) news'
       \<and> read_props depth (h0 @ (PlainObject, res @ res') # news') (res @ res')
           = Some (rvals @ map redact_entry vals)"
proof (induction todo arbitrary: res news rvals vals)
  case Nil
  then have "vals = []" by simp
  with Nil show ?case
    by (intro exI [of _ "[]"] exI [of _ news]) (simp add: refs_above_def)
next
  case (Cons kv todo)
  obtain k v where kv: "kv = (k, v)" by (cases kv)
  let ?s = "length h0"
  let ?cur = "h0 @ (PlainObject, res @ (k, v) # todo) # news"
  from Cons.prems(1) kv obtain t vals' where
    t: "read_value depth h0 v = Some t" and vals': "read_props depth h0 todo = Some vals'"
    and vals: "vals = (k, t) # vals'"
    by (auto split: option.splits)
  from Cons.prems(2) kv have fresh: "k \<notin> fst ` set res" by auto
  from Cons.prems(2) kv have dist: "distinct (map fst ((res @ [(k, x)]) @ todo))" for x
    by auto
  note rres = Cons.prems(5) [unfolded kv]
  have step: "\<exists>x news1.
      sanitize_keys depth ?s (map fst (kv # todo)) ?cur
        = sanitize_keys depth ?s (map fst todo) (h0 @ (PlainObject, (res @ [(k, x)]) @ todo) # news1)
      \<and> refs_above ?s (res @ [(k, x)]) \<and> closed_above ?s news1
      \<and> read_props depth (h0 @ (PlainObject, (res @ [(k, x)]) @ todo) # news1) (res @ [(k, x)])
          = Some (rvals @ [redact_entry (k, t)])"
  proof (cases "is_sensitive k")
    case True
    let ?x = "HStr ''[REDACTED]''"
    have "read_props depth (h0 @ (PlainObject, (res @ [(k, ?x)]) @ todo) # news @ []) res
            = Some rvals"
      by (rule read_props_above [OF Cons.prems(4) Cons.prems(3) rres])
    then have "read_props depth (h0 @ (PlainObject, (res @ [(k, ?x)]) @ todo) # news)
                 (res @ [(k, ?x)]) = Some (rvals @ [redact_entry (k, t)])"
      using True by (simp add: read_props_append redact_entry_cases)
    moreover have "refs_above ?s (res @ [(k, ?x)])"
      using Cons.prems(3) by (simp add: refs_above_def)
    moreover have "sanitize_keys depth ?s (map fst (kv # todo)) ?cur
        = sanitize_keys depth ?s (map fst todo) (h0 @ (PlainObject, (res @ [(k, ?x)]) @ todo) # news)"
      using True fresh by (simp add: kv h_set_at)
    ultimately show ?thesis using Cons.prems(4) by blast
  next
    case False
    have got: "h_get ?cur ?s k = v" using fresh by (rule h_get_at)
    show ?thesis
    proof (cases "\<exists>b. v = HRef b")
      case True
      then obtain b where b: "v = HRef b" by blast
      from t b have "read_value depth ?cur (HRef b) = Some t"
        by (simp add: read_value_extend)
      from sub [OF this] obtain new where
        run: "sanitizeDataH depth b ?cur = (Some (length ?cur), ?cur @ new)"
        and res: "read_value depth (?cur @ new) (HRef (length ?cur)) = Some (sanitizeData t)"
        and cl: "closed_above (length ?cur) new"
        by blast
      let ?x = "HRef (length ?cur)"
      let ?news1 = "news @ new"
      let ?next = "h0 @ (PlainObject, (res @ [(k, ?x)]) @ todo) # ?news1"
      have c1: "closed_above ?s ?news1"
        using Cons.prems(4) closed_above_mono [OF cl, of ?s]
        by (simp add: closed_above_append)
      have cn: "?cur @ new = h0 @ (PlainObject, res @ (k, v) # todo) # ?news1" by simp
      have "h_set ?s k ?x (?cur @ new) = ?next"
        unfolding cn using fresh by (simp add: h_set_at)
      then have run': "sanitize_keys depth ?s (map fst (kv # todo)) ?cur
          = sanitize_keys depth ?s (map fst todo) ?next"
        using False got b run by (simp add: kv)
      have "read_props depth (h0 @ (PlainObject, (res @ [(k, ?x)]) @ todo) # news @ new) res
              = Some rvals"
        by (rule read_props_above [OF Cons.prems(4) Cons.prems(3) rres])
      moreover have "read_value depth (h0 @ (PlainObject, (res @ [(k, ?x)]) @ todo) # ?news1 @ []) ?x
              = Some (sanitizeData t)"
        by (rule read_value_above [OF c1 _ res [unfolded cn]]) simp
      moreover have "redact_entry (k, t) = (k, sanitizeData t)"
        using False t b by (simp add: redact_entry_cases read_value_is_object)
      ultimately have "read_props depth ?next (res @ [(k, ?x)])
              = Some (rvals @ [redact_entry (k, t)])"
        by (simp add: read_props_append)
      moreover have "refs_above ?s (res @ [(k, ?x)])"
        using Cons.prems(3) by (auto simp: refs_above_def)
      ultimately show ?thesis using run' c1 by blast
    next
      case prim: False
      then have nr: "\<forall>b. v \<noteq> HRef b" by blast
      have same: "sanitize_keys depth ?s (map fst (kv # todo)) ?cur
          = sanitize_keys depth ?s (map fst todo) (h0 @ (PlainObject, (res @ [(k, v)]) @ todo) # news)"
        using False got nr by (cases v) (simp_all add: kv)
      have "read_value depth (h0 @ (PlainObject, (res @ [(k, v)]) @ todo) # news) v = Some t"
        using t read_value_prim(1) [OF nr] by metis
      moreover have "redact_entry (k, t) = (k, t)"
        using False read_value_prim(2) [OF nr t] by (simp add: redact_entry_cases)
      moreover have "read_props depth (h0 @ (PlainObject, (res @ [(k, v)]) @ todo) # news) res
              = Some rvals"
        using rres by simp
      ultimately have "read_props depth (h0 @ (PlainObject, (res @ [(k, v)]) @ todo) # news)
             (res @ [(k, v)]) = Some (rvals @ [redact_entry (k, t)])"
        by (simp add: read_props_append)
      moreover have "refs_above ?s (res @ [(k, v)])"
        using Cons.prems(3) nr by (auto simp: refs_above_def)
      ultimately show ?thesis using same Cons.prems(4) by blast
    qed
  qed
  then obtain x news1 where
    s1: "sanitize_keys depth ?s (map fst (kv # todo)) ?cur
        = sanitize_keys depth ?s (map fst todo) (h0 @ (PlainObject, (res @ [(k, x)]) @ todo) # news1)"
    and s2: "refs_above ?s (res @ [(k, x)])" and s3: "closed_above ?s news1"
    and s4: "read_props depth (h0 @ (PlainObject, (res @ [(k, x)]) @ todo) # news1) (res @ [(k, x)])
          = Some (rvals @ [redact_entry (k, t)])"
    by blast
  from Cons.IH [OF vals' dist s2 s3 s4] obtain res'' news' where
    i1: "sanitize_keys depth ?s (map fst todo) (h0 @ (PlainObject, (res @ [(k, x)]) @ todo) # news1)
         = (True, h0 @ (PlainObject, (res @ [(k, x)]) @ res'') # news')"
    and i2: "map fst res'' = map fst todo"
    and i3: "refs_above ?s res''" and i4: "closed_above ?s news'"
    and i5: "read_props depth (h0 @ (PlainObject, (res @ [(k, x)]) @ res'') # news')
              ((res @ [(k, x)]) @ res'') = Some ((rvals @ [redact_entry (k, t)]) @ map redact_entry vals')"
    by blast
  have "sanitize_keys depth ?s (map fst (kv # todo)) (h0 @ (PlainObject, res @ kv # todo) # news)
         = (True, h0 @ (PlainObject, res @ ((k, x) # res'')) # news')"
    using s1 i1 by (simp add: kv)
  moreover have "map fst ((k, x) # res'') = map fst (kv # todo)"
    using i2 by (simp add: kv)
  moreover have "refs_above ?s ((k, x) # res'')"
    using s2 i3 by (simp add: refs_above_def)
  moreover have "read_props depth (h0 @ (PlainObject, res @ ((k, x) # res'')) # news')
              (res @ ((k, x) # res'')) = Some (rvals @ map redact_entry vals)"
    using i5 by (simp add: vals)
  ultimately show ?case using i4 by blast
qed

lemma index_entries_keys:
  "map fst kvs = map index_key [i..<i + length kvs] \<Longrightarrow> index_entries i (map snd kvs) = kvs"
proof (induction kvs arbitrary: i)
  case Nil
  then show ?case by simp
next
  case (Cons kv kvs)
  have "[i..<i + length (kv # kvs)] = i # [Suc i..<Suc i + length kvs]"
    using upt_conv_Cons [of i "i + length (kv # kvs)"] by simp
  with Cons.prems have "fst kv = index_key i" "map fst kvs = map index_key [Suc i..<Suc i + length kvs]"
    by (simp_all del: upt_Suc)
  with Cons.IH [of "Suc i"] show ?case
    by (cases kv) simp
qed

lemma read_value_entries:
  assumes "read_value (Suc n) h (HRef data) = Some v"
  shows "data < length h \<and> distinct (map fst (snd (h ! data)))
     \<and> read_props n h (snd (h ! data)) = Some (own_entries v)"
proof -
  from assms have d: "data < length h" "distinct (map fst (snd (h ! data)))"
    by (auto split: if_splits)
  with assms obtain kvs where k: "read_props n h (snd (h ! data)) = Some kvs"
    by (auto split: option.splits)
  have "own_entries v = kvs"
  proof (cases "fst (h ! data)")
    case PlainObject
    with assms d k show ?thesis by auto
  next
    case ArrayObject
    with assms d k have "map fst kvs = map index_key [0..<0 + length kvs]" "v = JArr (map snd kvs)"
      by (auto split: if_splits)
    then show ?thesis by (simp add: index_entries_keys)
  qed
  with d k show ?thesis by simp
qed

lemma sanitizeDataH_sim:
  "read_value n h (HRef data) = Some v \<Longrightarrow>
   \<exists>new. sanitizeDataH n data h = (Some (length h), h @ new)
     \<and> read_value n (h @ new) (HRef (length h)) = Some (sanitizeData v)
     \<and> closed_above (length h) new"
proof (induction n arbitrary: data h v)
  case 0
  then show ?case by simp
next
  case (Suc n)
  let ?props = "snd (h ! data)"
  from read_value_entries [OF Suc.prems] have
    d: "data < length h" and dist: "distinct (map fst ?props)"
    and rd: "read_props n h ?props = Some (own_entries v)"
    by simp_all
  have "\<exists>res' news'.
       sanitize_keys n (length h) (map fst ?props) (h @ (PlainObject, [] @ ?props) # [])
         = (True, h @ (PlainObject, [] @ res') # news')
       \<and> map fst res' = map fst ?props
       \<and> refs_above (length h) res' \<and> closed_above (length h) news'
       \<and> read_props n (h @ (PlainObject, [] @ res') # news') ([] @ res')
           = Some ([] @ map redact_entry (own_entries v))"
    by (rule sanitize_keys_sim [OF Suc.IH rd])
       (simp_all add: dist refs_above_def closed_above_def)
  then obtain res' news' where
    run: "sanitize_keys n (length h) (map fst ?props) (h @ [(PlainObject, ?props)])
         = (True, h @ (PlainObject, res') # news')"
    and keys: "map fst res' = map fst ?props"
    and fr: "refs_above (length h) res'" "closed_above (length h) news'"
    and rr: "read_props n (h @ (PlainObject, res') # news') res'
           = Some (map redact_entry (own_entries v))"
    by auto
  have "sanitizeDataH (Suc n) data h = (Some (length h), h @ ((PlainObject, res') # news'))"
    using d run by (simp add: Let_def)
  moreover have "read_value (Suc n) (h @ ((PlainObject, res') # news')) (HRef (length h))
      = Some (sanitizeData v)"
    using keys dist rr by (simp add: sanitizeData_entries)
  moreover have "closed_above (length h) ((PlainObject, res') # news')"
    using fr by (simp add: closed_above_def)
  ultimately show ?case by blast
qed

text \<open>
  Claim C10. Whatever the heap and the argument, and whether the call returns or
  runs out of stack, sanitizeData leaves every object that existed before the call
  exactly as it was: the heap afterwards is the heap before with new objects added.
  When the argument holds a finite value \<open>v\<close> (read \<open>n\<close> deep), a stack of depth
  \<open>n\<close> is enough for the call to return; it returns a new object, the argument
  still holds \<open>v\<close>, the result holds \<open>sanitizeData v\<close>, and every reference inside
  the new objects is to a new object: the result shares nothing with the input.
\<close>

theorem sanitizeDataH_does_not_mutate:
  "(\<exists>new. snd (sanitizeDataH depth data h) = h @ new)
   \<and> (read_value n h (HRef data) = Some v \<longrightarrow>
        (\<exists>new. sanitizeDataH n data h = (Some (length h), h @ new)
           \<and> read_value n (h @ new) (HRef data) = Some v
           \<and> read_value n (h @ new) (HRef (length h)) = Some (sanitizeData v)
           \<and> closed_above (length h) new))"
proof (intro conjI impI)
  show "\<exists>new. snd (sanitizeDataH depth data h) = h @ new"
    by (rule sanitizeDataH_frame)
next
  assume r: "read_value n h (HRef data) = Some v"
  from sanitizeDataH_sim [OF r] obtain new where
    "sanitizeDataH n data h = (Some (length h), h @ new)"
    "read_value n (h @ new) (HRef (length h)) = Some (sanitizeData v)"
    "closed_above (length h) new"
    by blast
  moreover from r have "read_value n (h @ new) (HRef data) = Some v"
    by (rule read_value_extend)
  ultimately show "\<exists>new. sanitizeDataH n data h = (Some (length h), h @ new)
           \<and> read_value n (h @ new) (HRef data) = Some v
           \<and> read_value n (h @ new) (HRef (length h)) = Some (sanitizeData v)
           \<and> closed_above (length h) new"
    by blast
qed

theorem sanitizeDataH_does_not_mutate_witness:
  "read_value 3 example_heap (HRef 0) = Some example_value
   \<and> (\<exists>new. sanitizeDataH 3 0 example_heap = (Some 3, example_heap @ new)
         \<and> read_value 3 (example_heap @ new) (HRef 0) = Some example_value
         \<and> read_value 3 (example_heap @ new) (HRef 3) = Some (sanitizeData example_value)
         \<and> closed_above 3 new)"
proof -
  have r: "read_value 3 example_heap (HRef 0) = Some example_value"
    by (simp add: example_heap_def example_value_def eval_nat_numeral index_key.simps digit_char_def)
  have l: "length example_heap = 3"
    by (simp add: example_heap_def)
  from sanitizeDataH_does_not_mutate [of 0 0 example_heap 3 example_value] r
  have "\<exists>new. sanitizeDataH 3 0 example_heap = (Some (length example_heap), example_heap @ new)
         \<and> read_value 3 (example_heap @ new) (HRef 0) = Some example_value
         \<and> read_value 3 (example_heap @ new) (HRef (length example_heap))
             = Some (sanitizeData example_value)
         \<and> closed_above (length example_heap) new"
    by blast
  then have "\<exists>new. sanitizeDataH 3 0 example_heap = (Some 3, example_heap @ new)
         \<and> read_value 3 (example_heap @ new) (HRef 0) = Some example_value
         \<and> read_value 3 (example_heap @ new) (HRef 3) = Some (sanitizeData example_value)
         \<and> closed_above 3 new"
    unfolding l .
  with r show ?thesis by (rule conjI)
qed

end
